theory Spec2Isabelle
  imports Complex_Main
begin

section \<open>One step of Loop subdivision (loop.cpp)\<close>

text \<open>
  The development embeds \<^verbatim>\<open>loopSubdivision\<close> and \<^verbatim>\<open>getNewVertex\<close> of
  \<^verbatim>\<open>src/loop.cpp\<close>. The headers \<^verbatim>\<open>loop.hpp\<close> and \<^verbatim>\<open>geometry.hpp\<close> are not part of
  the sources at hand: the point type, the edge registry and the boundary finder are
  modelled from the specification, and the three helpers of the normal step are
  parameters of the pass. The arithmetic of \<^verbatim>\<open>float\<close> is a parameter as well, with exact
  real arithmetic and rounding to binary32 as two instances.
\<close>

subsection \<open>Outcomes\<close>

text \<open>
  A run of the C++ code either returns or stops in one of three ways:
  \<^item> \<open>AssertionFailed\<close>: the \<^verbatim>\<open>assert\<close> of line 134 fires (asserts are taken as enabled;
    a build with \<^verbatim>\<open>NDEBUG\<close> has no such stop and is not modelled);
  \<^item> \<open>UndefinedBehaviour\<close>: an unchecked \<^verbatim>\<open>std::vector::operator[]\<close> is used out of
    range, for which C++ defines no behaviour;
  \<^item> \<open>PreconditionViolated\<close>: a collaborator (registry, boundary finder) is called
    outside its contract, where the specification leaves the behaviour open.
\<close>

datatype failure = AssertionFailed | UndefinedBehaviour | PreconditionViolated

definition bindE :: "failure + 'a \<Rightarrow> ('a \<Rightarrow> failure + 'b) \<Rightarrow> failure + 'b" where
  "bindE m k = (case m of Inl e \<Rightarrow> Inl e | Inr a \<Rightarrow> k a)"

text \<open>A range-based \<^verbatim>\<open>for\<close> loop whose body may stop the run.\<close>

fun foldE :: "('a \<Rightarrow> 's \<Rightarrow> failure + 's) \<Rightarrow> 'a list \<Rightarrow> 's \<Rightarrow> failure + 's" where
  "foldE step [] s = Inr s"
| "foldE step (x # xs) s = bindE (step x s) (foldE step xs)"

text \<open>\<^verbatim>\<open>vec[i]\<close> as a read and \<^verbatim>\<open>vec[i] = v\<close> as a write.\<close>

definition readAt :: "'a list \<Rightarrow> nat \<Rightarrow> failure + 'a" where
  "readAt xs i = (if i < length xs then Inr (xs ! i) else Inl UndefinedBehaviour)"

definition writeAt :: "'a list \<Rightarrow> nat \<Rightarrow> 'a \<Rightarrow> failure + 'a list" where
  "writeAt xs i v = (if i < length xs then Inr (xs[i := v]) else Inl UndefinedBehaviour)"

subsection \<open>Floating-point arithmetic\<close>

text \<open>
  The pass computes in \<^verbatim>\<open>float\<close>: it adds, multiplies and divides, writes literals such
  as \<^verbatim>\<open>3.f\<close> and \<^verbatim>\<open>0.5f\<close>, and converts a counter with \<^verbatim>\<open>(float)occurrences[i]\<close>. The values
  of the type are \<open>'f\<close>; \<open>toFloat\<close> is the value a literal or a converted integer denotes.
  Nothing is assumed of the operations, so that rounding, overflow and NaN are whatever
  the arithmetic at hand makes them. Every operation of the source is one operation of
  the arithmetic, applied in the order the source gives; a build that fuses a product
  with a sum or keeps intermediate results in a wider format is not modelled.
\<close>

record 'f arith =
  toFloat :: "real \<Rightarrow> 'f"
  fadd :: "'f \<Rightarrow> 'f \<Rightarrow> 'f"
  fmul :: "'f \<Rightarrow> 'f \<Rightarrow> 'f"
  fdiv :: "'f \<Rightarrow> 'f \<Rightarrow> 'f"

text \<open>Addition gives the same value in both orders, as it does in IEEE 754.\<close>

definition commutativeAdd :: "'f arith \<Rightarrow> bool" where
  "commutativeAdd A = (\<forall>x y. fadd A x y = fadd A y x)"

text \<open>The arithmetic of the real numbers: no rounding.\<close>

definition exactArith :: "real arith" where
  "exactArith = \<lparr>toFloat = (\<lambda>x. x), fadd = (+), fmul = (*), fdiv = (/)\<rparr>"

text \<open>
  The binary32 format with rounding to nearest, ties to even: 24 significant bits,
  exponents from \<open>-126\<close> to \<open>127\<close>, subnormal numbers in steps of \<open>2^-149\<close>, overflow to an
  infinity. The two zeros are not told apart. \<open>ulp n x\<close> is the distance between
  neighbouring numbers of 24 bits at the magnitude \<open>x > 0\<close>, found in at most \<open>n\<close> halvings
  or doublings.
\<close>

datatype float32 = Finite real | Infinity bool | NaN

fun ulp :: "nat \<Rightarrow> real \<Rightarrow> real" where
  "ulp 0 x = 1 / 2 ^ 23"
| "ulp (Suc n) x =
     (if 2 \<le> x then 2 * ulp n (x / 2)
      else if x < 1 then ulp n (2 * x) / 2
      else 1 / 2 ^ 23)"

definition spacing :: "real \<Rightarrow> real" where
  "spacing x = max (ulp 300 \<bar>x\<bar>) (1 / 2 ^ 149)"

definition roundEven :: "real \<Rightarrow> int" where
  "roundEven x =
     (let n = \<lfloor>x\<rfloor>; d = x - of_int n in
      if d < 1 / 2 then n else if 1 / 2 < d then n + 1 else if even n then n else n + 1)"

definition round32 :: "real \<Rightarrow> float32" where
  "round32 x =
     (if x = 0 then Finite 0
      else
        let y = spacing x * of_int (roundEven (x / spacing x)) in
        if 2 ^ 128 \<le> \<bar>y\<bar> then Infinity (x < 0) else Finite y)"

fun fadd32 :: "float32 \<Rightarrow> float32 \<Rightarrow> float32" where
  "fadd32 (Finite a) (Finite b) = round32 (a + b)"
| "fadd32 (Infinity s) (Infinity t) = (if s = t then Infinity s else NaN)"
| "fadd32 (Infinity s) (Finite b) = Infinity s"
| "fadd32 (Finite a) (Infinity t) = Infinity t"
| "fadd32 NaN y = NaN"
| "fadd32 x NaN = NaN"

fun fmul32 :: "float32 \<Rightarrow> float32 \<Rightarrow> float32" where
  "fmul32 (Finite a) (Finite b) = round32 (a * b)"
| "fmul32 (Infinity s) (Infinity t) = Infinity (s \<noteq> t)"
| "fmul32 (Infinity s) (Finite b) = (if b = 0 then NaN else Infinity (s \<noteq> (b < 0)))"
| "fmul32 (Finite a) (Infinity t) = (if a = 0 then NaN else Infinity (t \<noteq> (a < 0)))"
| "fmul32 NaN y = NaN"
| "fmul32 x NaN = NaN"

fun fdiv32 :: "float32 \<Rightarrow> float32 \<Rightarrow> float32" where
  "fdiv32 (Finite a) (Finite b) =
     (if b = 0 then (if a = 0 then NaN else Infinity (a < 0)) else round32 (a / b))"
| "fdiv32 (Infinity s) (Infinity t) = NaN"
| "fdiv32 (Infinity s) (Finite b) = Infinity (s \<noteq> (b < 0))"
| "fdiv32 (Finite a) (Infinity t) = Finite 0"
| "fdiv32 NaN y = NaN"
| "fdiv32 x NaN = NaN"

definition binary32 :: "float32 arith" where
  "binary32 = \<lparr>toFloat = round32, fadd = fadd32, fmul = fmul32, fdiv = fdiv32\<rparr>"

text \<open>The real number a finite value stands for.\<close>

fun valueOf :: "float32 \<Rightarrow> real" where
  "valueOf (Finite r) = r"
| "valueOf (Infinity s) = 0"
| "valueOf NaN = 0"

subsection \<open>Points and vectors\<close>

text \<open>
  Modelled from the spec: \<^verbatim>\<open>point3d\<close> and \<^verbatim>\<open>vec3d\<close> of the absent \<^verbatim>\<open>geometry.hpp\<close>, "a
  3-component floating-point coordinate", with the sum of two points, the two products
  of a point and a number (\<^verbatim>\<open>float * point3d\<close> and \<^verbatim>\<open>point3d * float\<close>) taken component by
  component, and the point \<open>[0 0 0]\<close> that a default-constructed element is (lines 96, 141).
\<close>

datatype 'f point3d = Point3d 'f 'f 'f

type_synonym 'f vec3d = "'f point3d"

fun padd :: "'f arith \<Rightarrow> 'f point3d \<Rightarrow> 'f point3d \<Rightarrow> 'f point3d" where
  "padd A (Point3d a b c) (Point3d a' b' c') =
     Point3d (fadd A a a') (fadd A b b') (fadd A c c')"

fun scale :: "'f arith \<Rightarrow> 'f \<Rightarrow> 'f point3d \<Rightarrow> 'f point3d" where
  "scale A s (Point3d a b c) = Point3d (fmul A s a) (fmul A s b) (fmul A s c)"

fun scaledBy :: "'f arith \<Rightarrow> 'f point3d \<Rightarrow> 'f \<Rightarrow> 'f point3d" where
  "scaledBy A (Point3d a b c) s = Point3d (fmul A a s) (fmul A b s) (fmul A c s)"

definition origin :: "'f arith \<Rightarrow> 'f point3d" where
  "origin A = Point3d (toFloat A 0) (toFloat A 0) (toFloat A 0)"

text \<open>
  The Euclidean length of a vector, on the real numbers that \<open>val\<close> reads off its
  components.
\<close>

fun vlength :: "('f \<Rightarrow> real) \<Rightarrow> 'f point3d \<Rightarrow> real" where
  "vlength val (Point3d a b c) = sqrt ((val a)\<^sup>2 + (val b)\<^sup>2 + (val c)\<^sup>2)"

text \<open>A point of finite values as a point of real numbers.\<close>

fun realPoint :: "float32 point3d \<Rightarrow> real point3d" where
  "realPoint (Point3d a b c) = Point3d (valueOf a) (valueOf b) (valueOf c)"

subsection \<open>Faces and edges\<close>

text \<open>
  \<^verbatim>\<open>idxtype\<close> is an unsigned integer type of \<^verbatim>\<open>geometry.hpp\<close>; indices are natural
  numbers here, which is exact as long as a mesh has fewer vertices than the type holds.
\<close>

type_synonym idxtype = nat

record face =
  v1 :: idxtype
  v2 :: idxtype
  v3 :: idxtype

definition mkFace :: "idxtype \<Rightarrow> idxtype \<Rightarrow> idxtype \<Rightarrow> face" where
  "mkFace a b c = \<lparr>v1 = a, v2 = b, v3 = c\<rparr>"

type_synonym edge = "idxtype \<times> idxtype"

subsection \<open>Edge registry\<close>

text \<open>
  Modelled from the spec: the class \<^verbatim>\<open>EdgeList\<close> of the absent \<^verbatim>\<open>geometry.hpp\<close>, spec 4.1:
  a mapping from an undirected edge to the index of its midpoint vertex, with an
  order-independent key (the pair sorted), \<^verbatim>\<open>contains\<close>, \<^verbatim>\<open>add\<close> (fails when the edge is
  present) and \<^verbatim>\<open>getIndex\<close> (fails when it is absent).
\<close>

type_synonym EdgeList = "edge \<rightharpoonup> idxtype"

definition canon :: "edge \<Rightarrow> edge" where
  "canon e = (min (fst e) (snd e), max (fst e) (snd e))"

definition contains :: "EdgeList \<Rightarrow> edge \<Rightarrow> bool" where
  "contains L e = (L (canon e) \<noteq> None)"

definition add :: "EdgeList \<Rightarrow> edge \<Rightarrow> idxtype \<Rightarrow> failure + EdgeList" where
  "add L e i = (if contains L e then Inl PreconditionViolated else Inr (L(canon e \<mapsto> i)))"

definition getIndex :: "EdgeList \<Rightarrow> edge \<Rightarrow> failure + idxtype" where
  "getIndex L e = (case L (canon e) of None \<Rightarrow> Inl PreconditionViolated | Some i \<Rightarrow> Inr i)"

subsection \<open>Boundary finder\<close>

text \<open>
  Modelled from the spec: \<^verbatim>\<open>isBoundaryEdge\<close> of the absent \<^verbatim>\<open>geometry.hpp\<close>, spec 4.2.
  A face is incident to an edge if it contains both endpoints; its opposite vertex is
  the corner that is neither endpoint. One incident face makes a boundary edge, two
  give the two opposite vertices; any other count is outside the contract.
\<close>

datatype boundary = Boundary | Interior idxtype idxtype

definition corners :: "face \<Rightarrow> idxtype set" where
  "corners f = {v1 f, v2 f, v3 f}"

definition incident :: "edge \<Rightarrow> face \<Rightarrow> bool" where
  "incident e f = (fst e \<in> corners f \<and> snd e \<in> corners f)"

definition opposite :: "edge \<Rightarrow> face \<Rightarrow> idxtype" where
  "opposite e f =
     (if v1 f \<noteq> fst e \<and> v1 f \<noteq> snd e then v1 f
      else if v2 f \<noteq> fst e \<and> v2 f \<noteq> snd e then v2 f
      else v3 f)"

definition isBoundaryEdge :: "edge \<Rightarrow> face list \<Rightarrow> failure + boundary" where
  "isBoundaryEdge e mesh =
     (case filter (incident e) mesh of
        [f] \<Rightarrow> Inr Boundary
      | [f, g] \<Rightarrow> Inr (Interior (opposite e f) (opposite e g))
      | _ \<Rightarrow> Inl PreconditionViolated)"

subsection \<open>getNewVertex\<close>

text \<open>
  Lines 225 to 248: the position of the new vertex of edge \<open>e\<close>, read from the current
  vertex list. Line 237 is
  \<^verbatim>\<open>(3.f/8.f) * (vertList[e.first] + vertList[e.second]) + (1.f/8.f) * (vertList[oppV1] + vertList[oppV2])\<close>
  and line 246 is \<^verbatim>\<open>(vertList[e.first] + vertList[e.second]) * 0.5f\<close>.
\<close>

definition newVertexPosition ::
  "'f arith \<Rightarrow> edge \<Rightarrow> 'f point3d list \<Rightarrow> face list \<Rightarrow> failure + 'f point3d" where
  "newVertexPosition A e vertList mesh =
     bindE (isBoundaryEdge e mesh) (\<lambda>opp.
       case opp of
         Interior oppV1 oppV2 \<Rightarrow>
           bindE (readAt vertList (fst e)) (\<lambda>p1.
           bindE (readAt vertList (snd e)) (\<lambda>p2.
           bindE (readAt vertList oppV1) (\<lambda>q1.
           bindE (readAt vertList oppV2) (\<lambda>q2.
             Inr (padd A (scale A (fdiv A (toFloat A 3) (toFloat A 8)) (padd A p1 p2))
                         (scale A (fdiv A (toFloat A 1) (toFloat A 8)) (padd A q1 q2)))))))
       | Boundary \<Rightarrow>
           bindE (readAt vertList (fst e)) (\<lambda>p1.
           bindE (readAt vertList (snd e)) (\<lambda>p2.
             Inr (scaledBy A (padd A p1 p2) (toFloat A (1 / 2))))))"

text \<open>
  Lines 191 to 270. The vertex list and the registry are in-out parameters: the result
  carries the returned index and their new contents.
\<close>

definition getNewVertex ::
  "'f arith \<Rightarrow> edge \<Rightarrow> 'f point3d list \<Rightarrow> face list \<Rightarrow> EdgeList
     \<Rightarrow> failure + (idxtype \<times> 'f point3d list \<times> EdgeList)" where
  "getNewVertex A e vertList mesh newVertList =
     (if \<not> contains newVertList e then
        let newIndex = length vertList in
        bindE (add newVertList e newIndex) (\<lambda>newVertList'.
        bindE (newVertexPosition A e vertList mesh) (\<lambda>nvert.
          Inr (newIndex, vertList @ [nvert], newVertList')))
      else
        bindE (getIndex newVertList e) (\<lambda>i. Inr (i, vertList, newVertList)))"

subsection \<open>The pass\<close>

text \<open>Lines 75 to 78: the four child faces of a face, given its three midpoint indices.\<close>

definition childFaces :: "face \<Rightarrow> idxtype \<Rightarrow> idxtype \<Rightarrow> idxtype \<Rightarrow> face list" where
  "childFaces f a b c =
     [mkFace (v1 f) a c, mkFace a b c, mkFace c b (v3 f), mkFace a (v2 f) b]"

text \<open>Lines 42 to 81: the body of the first loop, on the state (destVert, destMesh, newVertices).\<close>

definition subdivideFace ::
  "'f arith \<Rightarrow> face list \<Rightarrow> face \<Rightarrow> 'f point3d list \<times> face list \<times> EdgeList
     \<Rightarrow> failure + ('f point3d list \<times> face list \<times> EdgeList)" where
  "subdivideFace A origMesh f s =
     (case s of (destVert, destMesh, newVertices) \<Rightarrow>
        bindE (getNewVertex A (v1 f, v2 f) destVert origMesh newVertices) (\<lambda>(a, destVert, newVertices).
        bindE (getNewVertex A (v2 f, v3 f) destVert origMesh newVertices) (\<lambda>(b, destVert, newVertices).
        bindE (getNewVertex A (v3 f, v1 f) destVert origMesh newVertices) (\<lambda>(c, destVert, newVertices).
          Inr (destVert, destMesh @ childFaces f a b c, newVertices)))))"

text \<open>
  Lines 31 to 81: the first loop, started on the vertex list that line 28 filled, with
  the mesh cleared and a fresh registry.
\<close>

definition subdivideFaces ::
  "'f arith \<Rightarrow> 'f point3d list \<Rightarrow> face list
     \<Rightarrow> failure + ('f point3d list \<times> face list \<times> EdgeList)" where
  "subdivideFaces A destVert origMesh =
     (let destMesh = []; newVertices = Map.empty in
      foldE (subdivideFace A origMesh) origMesh (destVert, destMesh, newVertices))"

text \<open>
  Lines 116 and 117 (and 120, 121, 124, 125): one vertex of a face gets its occurrence
  incremented and the two other corners added to its running sum,
  \<^verbatim>\<open>tmp[v1] = tmp[v1] + (origVert[v2] + origVert[v3])\<close>.
\<close>

definition accumulateVertex ::
  "'f arith \<Rightarrow> 'f point3d list \<Rightarrow> idxtype \<Rightarrow> idxtype \<Rightarrow> idxtype \<Rightarrow> nat list \<times> 'f point3d list
     \<Rightarrow> failure + (nat list \<times> 'f point3d list)" where
  "accumulateVertex A origVert i j k s =
     (case s of (occurrences, tmp) \<Rightarrow>
        bindE (readAt occurrences i) (\<lambda>n.
        bindE (writeAt occurrences i (n + 1)) (\<lambda>occurrences.
        bindE (readAt tmp i) (\<lambda>t.
        bindE (readAt origVert j) (\<lambda>pj.
        bindE (readAt origVert k) (\<lambda>pk.
        bindE (writeAt tmp i (padd A t (padd A pj pk))) (\<lambda>tmp.
          Inr (occurrences, tmp))))))))"

text \<open>Lines 102 to 127: the body of the second loop.\<close>

definition accumulateFace ::
  "'f arith \<Rightarrow> 'f point3d list \<Rightarrow> face \<Rightarrow> nat list \<times> 'f point3d list
     \<Rightarrow> failure + (nat list \<times> 'f point3d list)" where
  "accumulateFace A origVert f s =
     bindE (accumulateVertex A origVert (v1 f) (v2 f) (v3 f) s) (\<lambda>s.
     bindE (accumulateVertex A origVert (v2 f) (v1 f) (v3 f) s) (\<lambda>s.
       accumulateVertex A origVert (v3 f) (v1 f) (v2 f) s))"

text \<open>Lines 94 to 127: both accumulators start at zero.\<close>

definition accumulate ::
  "'f arith \<Rightarrow> 'f point3d list \<Rightarrow> face list \<Rightarrow> failure + (nat list \<times> 'f point3d list)" where
  "accumulate A origVert origMesh =
     foldE (accumulateFace A origVert) origMesh
       (replicate (length origVert) 0, replicate (length origVert) (origin A))"

text \<open>
  Lines 134 and 135: the body of the third loop,
  \<^verbatim>\<open>destVert[i] = (5.0f / 8.0f) * origVert[i] + tmp[i] * (3.0f / (16.0f * (float)occurrences[i]))\<close>.
\<close>

definition repositionVertex ::
  "'f arith \<Rightarrow> 'f point3d list \<Rightarrow> nat list \<Rightarrow> 'f point3d list \<Rightarrow> nat \<Rightarrow> 'f point3d list
     \<Rightarrow> failure + 'f point3d list" where
  "repositionVertex A origVert occurrences tmp i destVert =
     bindE (readAt occurrences i) (\<lambda>n.
       if n = 0 then Inl AssertionFailed
       else
         bindE (readAt origVert i) (\<lambda>p.
         bindE (readAt tmp i) (\<lambda>t.
           writeAt destVert i
             (padd A (scale A (fdiv A (toFloat A 5) (toFloat A 8)) p)
                     (scaledBy A t
                        (fdiv A (toFloat A 3) (fmul A (toFloat A 16) (toFloat A (real n)))))))))"

definition reposition ::
  "'f arith \<Rightarrow> 'f point3d list \<Rightarrow> nat list \<Rightarrow> 'f point3d list \<Rightarrow> 'f point3d list
     \<Rightarrow> failure + 'f point3d list" where
  "reposition A origVert occurrences tmp destVert =
     foldE (repositionVertex A origVert occurrences tmp) [0 ..< length origVert] destVert"

text \<open>
  The helpers of the normal step, \<^verbatim>\<open>computeNormal\<close>, \<^verbatim>\<open>angleAtVertex\<close> and
  \<^verbatim>\<open>vec3d::normalize\<close>, belong to the absent \<^verbatim>\<open>geometry.hpp\<close>; the pass takes them as
  parameters, so every result below holds whatever they compute.
\<close>

record 'f geometry =
  computeNormal :: "'f point3d \<Rightarrow> 'f point3d \<Rightarrow> 'f point3d \<Rightarrow> 'f vec3d"
  angleAtVertex :: "'f point3d \<Rightarrow> 'f point3d \<Rightarrow> 'f point3d \<Rightarrow> 'f"
  normalize_vec3d :: "'f vec3d \<Rightarrow> 'f vec3d"

text \<open>
  Lines 148 to 165: the body of the fourth loop; \<^verbatim>\<open>destNorm[f.v1] += angle * norm\<close> adds the
  product to the entry.
\<close>

definition addFaceNormal ::
  "'f arith \<Rightarrow> 'f geometry \<Rightarrow> 'f point3d list \<Rightarrow> face \<Rightarrow> 'f vec3d list
     \<Rightarrow> failure + 'f vec3d list" where
  "addFaceNormal A G destVert f destNorm =
     bindE (readAt destVert (v1 f)) (\<lambda>p1.
     bindE (readAt destVert (v2 f)) (\<lambda>p2.
     bindE (readAt destVert (v3 f)) (\<lambda>p3.
       let norm = computeNormal G p1 p2 p3 in
       bindE (readAt destNorm (v1 f)) (\<lambda>n1.
       bindE (writeAt destNorm (v1 f) (padd A n1 (scale A (angleAtVertex G p1 p2 p3) norm)))
         (\<lambda>destNorm.
       bindE (readAt destNorm (v2 f)) (\<lambda>n2.
       bindE (writeAt destNorm (v2 f) (padd A n2 (scale A (angleAtVertex G p2 p3 p1) norm)))
         (\<lambda>destNorm.
       bindE (readAt destNorm (v3 f)) (\<lambda>n3.
         writeAt destNorm (v3 f) (padd A n3 (scale A (angleAtVertex G p3 p1 p2) norm))))))))))"

text \<open>Lines 142 to 165: zero normals, then the accumulation over the new faces.\<close>

definition accumulateNormals ::
  "'f arith \<Rightarrow> 'f geometry \<Rightarrow> 'f point3d list \<Rightarrow> face list \<Rightarrow> failure + 'f vec3d list" where
  "accumulateNormals A G destVert destMesh =
     foldE (addFaceNormal A G destVert) destMesh (replicate (length destVert) (origin A))"

text \<open>Lines 142 to 174: the accumulation, then the normalisation of every entry.\<close>

definition recomputeNormals ::
  "'f arith \<Rightarrow> 'f geometry \<Rightarrow> 'f point3d list \<Rightarrow> face list \<Rightarrow> failure + 'f vec3d list" where
  "recomputeNormals A G destVert destMesh =
     bindE (accumulateNormals A G destVert destMesh) (\<lambda>destNorm.
       Inr (map (normalize_vec3d G) destNorm))"

text \<open>
  Lines 21 to 177. The three output parameters are references to vectors of the caller:
  their contents at the call are the last three arguments, their contents at the
  return are the result. The pass overwrites them before it reads them (lines 28, 31,
  142 and 143). Here the five vectors are five different objects; a call that passes one
  vector for two parameters is a run of \<open>loopSubdivisionAt\<close> below, on a store.
\<close>

definition loopSubdivision ::
  "'f arith \<Rightarrow> 'f geometry \<Rightarrow> 'f point3d list \<Rightarrow> face list
     \<Rightarrow> 'f point3d list \<Rightarrow> face list \<Rightarrow> 'f vec3d list
     \<Rightarrow> failure + ('f point3d list \<times> face list \<times> 'f vec3d list)" where
  "loopSubdivision A G origVert origMesh destVert0 destMesh0 destNorm0 =
     (let destVert = origVert in
      bindE (subdivideFaces A destVert origMesh) (\<lambda>(destVert, destMesh, newVertices).
      bindE (accumulate A origVert origMesh) (\<lambda>(occurrences, tmp).
      bindE (reposition A origVert occurrences tmp destVert) (\<lambda>destVert.
      bindE (recomputeNormals A G destVert destMesh) (\<lambda>destNorm.
        Inr (destVert, destMesh, destNorm))))))"

text \<open>The vertices a run returned, and none if it stopped.\<close>

definition outputVertices ::
  "failure + ('f point3d list \<times> face list \<times> 'f vec3d list) \<Rightarrow> 'f point3d list" where
  "outputVertices r = (case r of Inl e \<Rightarrow> [] | Inr (destVert, destMesh, destNorm) \<Rightarrow> destVert)"

text \<open>The index that the registry of a finished first loop holds for an edge.\<close>

definition registeredIndex ::
  "failure + ('f point3d list \<times> face list \<times> EdgeList) \<Rightarrow> edge \<Rightarrow> failure + idxtype" where
  "registeredIndex r e =
     (case r of Inl x \<Rightarrow> Inl x | Inr (destVert, destMesh, newVertices) \<Rightarrow> getIndex newVertices e)"

subsection \<open>The pass on a store\<close>

text \<open>
  The five parameters of \<^verbatim>\<open>loopSubdivision\<close> are references. A store holds the vectors of
  the caller, each at an address: the vectors of points and the vectors of faces. A
  parameter is an address, and two parameters of one element type may be bound to the
  same vector: \<^verbatim>\<open>origVert\<close> and \<^verbatim>\<open>destVert\<close> are both \<^verbatim>\<open>std::vector<point3d>\<close>, \<^verbatim>\<open>origMesh\<close> and
  \<^verbatim>\<open>destMesh\<close> both \<^verbatim>\<open>std::vector<face>\<close>. A vector of \<^verbatim>\<open>vec3d\<close> is a vector of points here,
  so that \<^verbatim>\<open>destNorm\<close> may be bound to the vector of a vertex parameter as well; if the two
  types of \<^verbatim>\<open>geometry.hpp\<close> differ, no call does that.
\<close>

type_synonym ref = nat

record 'f store =
  pointVectors :: "ref \<Rightarrow> 'f point3d list"
  faceVectors :: "ref \<Rightarrow> face list"

definition setPoints :: "ref \<Rightarrow> 'f point3d list \<Rightarrow> 'f store \<Rightarrow> 'f store" where
  "setPoints r ps s = s\<lparr>pointVectors := (pointVectors s)(r := ps)\<rparr>"

definition setFaces :: "ref \<Rightarrow> face list \<Rightarrow> 'f store \<Rightarrow> 'f store" where
  "setFaces r fs s = s\<lparr>faceVectors := (faceVectors s)(r := fs)\<rparr>"

text \<open>
  Lines 42 to 81: the body of the first loop on the store. \<^verbatim>\<open>getNewVertex\<close> gets the vector
  at \<open>destVert\<close> as its in-out vertex list and the vector at \<open>origMesh\<close> as its mesh (a vector
  of points and a vector of faces are never the same object), and its vertex list is
  stored back; lines 75 to 78 append to the vector at \<open>destMesh\<close>.
\<close>

definition subdivideFaceAt ::
  "'f arith \<Rightarrow> ref \<Rightarrow> ref \<Rightarrow> ref \<Rightarrow> face \<Rightarrow> 'f store \<times> EdgeList
     \<Rightarrow> failure + ('f store \<times> EdgeList)" where
  "subdivideFaceAt A origMesh destVert destMesh f st =
     (case st of (s, newVertices) \<Rightarrow>
        bindE (getNewVertex A (v1 f, v2 f) (pointVectors s destVert) (faceVectors s origMesh)
                 newVertices) (\<lambda>(a, vertList, newVertices).
        let s = setPoints destVert vertList s in
        bindE (getNewVertex A (v2 f, v3 f) (pointVectors s destVert) (faceVectors s origMesh)
                 newVertices) (\<lambda>(b, vertList, newVertices).
        let s = setPoints destVert vertList s in
        bindE (getNewVertex A (v3 f, v1 f) (pointVectors s destVert) (faceVectors s origMesh)
                 newVertices) (\<lambda>(c, vertList, newVertices).
        let s = setPoints destVert vertList s in
          Inr (setFaces destMesh (faceVectors s destMesh @ childFaces f a b c) s,
               newVertices)))))"

text \<open>
  Lines 134 and 135 on the store: the entry \<open>i\<close> of the vector at \<open>origVert\<close> is read and
  the entry \<open>i\<close> of the vector at \<open>destVert\<close> is written.
\<close>

definition repositionVertexAt ::
  "'f arith \<Rightarrow> ref \<Rightarrow> ref \<Rightarrow> nat list \<Rightarrow> 'f point3d list \<Rightarrow> nat \<Rightarrow> 'f store
     \<Rightarrow> failure + 'f store" where
  "repositionVertexAt A origVert destVert occurrences tmp i s =
     bindE (repositionVertex A (pointVectors s origVert) occurrences tmp i
              (pointVectors s destVert)) (\<lambda>vertList.
       Inr (setPoints destVert vertList s))"

text \<open>
  Lines 160 to 162 on the store, one statement:
  \<^verbatim>\<open>destNorm[i] += angleAtVertex(destVert[i], destVert[j], destVert[k]) * norm\<close>, with the
  face normal \<^verbatim>\<open>norm\<close> of line 154 as \<open>faceNorm\<close>.
\<close>

definition addWeightedNormal ::
  "'f arith \<Rightarrow> 'f geometry \<Rightarrow> ref \<Rightarrow> ref \<Rightarrow> idxtype \<Rightarrow> idxtype \<Rightarrow> idxtype \<Rightarrow> 'f vec3d
     \<Rightarrow> 'f store \<Rightarrow> failure + 'f store" where
  "addWeightedNormal A G destVert destNorm i j k faceNorm s =
     bindE (readAt (pointVectors s destVert) i) (\<lambda>p.
     bindE (readAt (pointVectors s destVert) j) (\<lambda>q.
     bindE (readAt (pointVectors s destVert) k) (\<lambda>r.
     bindE (readAt (pointVectors s destNorm) i) (\<lambda>n.
     bindE (writeAt (pointVectors s destNorm) i (padd A n (scale A (angleAtVertex G p q r) faceNorm)))
       (\<lambda>normList.
       Inr (setPoints destNorm normList s))))))"

text \<open>Lines 148 to 165: the body of the fourth loop on the store.\<close>

definition addFaceNormalAt ::
  "'f arith \<Rightarrow> 'f geometry \<Rightarrow> ref \<Rightarrow> ref \<Rightarrow> face \<Rightarrow> 'f store \<Rightarrow> failure + 'f store" where
  "addFaceNormalAt A G destVert destNorm f s =
     bindE (readAt (pointVectors s destVert) (v1 f)) (\<lambda>p1.
     bindE (readAt (pointVectors s destVert) (v2 f)) (\<lambda>p2.
     bindE (readAt (pointVectors s destVert) (v3 f)) (\<lambda>p3.
       let norm = computeNormal G p1 p2 p3 in
       bindE (addWeightedNormal A G destVert destNorm (v1 f) (v2 f) (v3 f) norm s) (\<lambda>s.
       bindE (addWeightedNormal A G destVert destNorm (v2 f) (v3 f) (v1 f) norm s) (\<lambda>s.
         addWeightedNormal A G destVert destNorm (v3 f) (v1 f) (v2 f) norm s)))))"

text \<open>
  Lines 21 to 177 on the store, statement by statement. A range-based \<^verbatim>\<open>for\<close> runs over
  the elements its vector has when the loop starts: the second and the fourth loop do not
  change their vector, and the first loop changes the vector at \<open>origMesh\<close> only if it is
  also the vector at \<open>destMesh\<close>, which line 31 has emptied, so that the body does not
  run. The accumulators of lines 94 and 97 are local and get the size that the vector at
  \<open>origVert\<close> has at that moment.
\<close>

definition loopSubdivisionAt ::
  "'f arith \<Rightarrow> 'f geometry \<Rightarrow> ref \<Rightarrow> ref \<Rightarrow> ref \<Rightarrow> ref \<Rightarrow> ref \<Rightarrow> 'f store
     \<Rightarrow> failure + 'f store" where
  "loopSubdivisionAt A G origVert origMesh destVert destMesh destNorm s =
     (let s = setPoints destVert (pointVectors s origVert) s;
          s = setFaces destMesh [] s in
      bindE (foldE (subdivideFaceAt A origMesh destVert destMesh) (faceVectors s origMesh)
               (s, Map.empty)) (\<lambda>(s, newVertices).
      bindE (accumulate A (pointVectors s origVert) (faceVectors s origMesh))
        (\<lambda>(occurrences, tmp).
      bindE (foldE (repositionVertexAt A origVert destVert occurrences tmp)
               [0 ..< length (pointVectors s origVert)] s) (\<lambda>s.
      let s = setPoints destNorm (replicate (length (pointVectors s destVert)) (origin A)) s in
      bindE (foldE (addFaceNormalAt A G destVert destNorm) (faceVectors s destMesh) s) (\<lambda>s.
        Inr (setPoints destNorm (map (normalize_vec3d G) (pointVectors s destNorm)) s))))))"

text \<open>What a run on the store left in the three output vectors.\<close>

definition outputsAt ::
  "ref \<Rightarrow> ref \<Rightarrow> ref \<Rightarrow> failure + 'f store
     \<Rightarrow> failure + ('f point3d list \<times> face list \<times> 'f vec3d list)" where
  "outputsAt destVert destMesh destNorm r =
     (case r of
        Inl e \<Rightarrow> Inl e
      | Inr s \<Rightarrow> Inr (pointVectors s destVert, faceVectors s destMesh, pointVectors s destNorm))"

subsection \<open>Well-formed input\<close>

text \<open>
  The input invariants of spec 3 and 6: every face has three valid, distinct indices,
  every edge of a face has one or two incident faces, and every vertex is a corner of
  some face.
\<close>

definition faceEdges :: "face \<Rightarrow> edge list" where
  "faceEdges f = [(v1 f, v2 f), (v2 f, v3 f), (v3 f, v1 f)]"

definition meshEdges :: "face list \<Rightarrow> edge set" where
  "meshEdges F = canon ` (\<Union>f \<in> set F. set (faceEdges f))"

definition validIndices :: "'f point3d list \<Rightarrow> face list \<Rightarrow> bool" where
  "validIndices V F = list_all (\<lambda>f. v1 f < length V \<and> v2 f < length V \<and> v3 f < length V) F"

definition distinctCorners :: "face list \<Rightarrow> bool" where
  "distinctCorners F = list_all (\<lambda>f. v1 f \<noteq> v2 f \<and> v2 f \<noteq> v3 f \<and> v3 f \<noteq> v1 f) F"

definition manifoldEdge :: "face list \<Rightarrow> edge \<Rightarrow> bool" where
  "manifoldEdge F e =
     (length (filter (incident e) F) = 1 \<or> length (filter (incident e) F) = 2)"

definition manifold :: "face list \<Rightarrow> bool" where
  "manifold F = list_all (\<lambda>f. list_all (manifoldEdge F) (faceEdges f)) F"

definition allReferenced :: "'f point3d list \<Rightarrow> face list \<Rightarrow> bool" where
  "allReferenced V F = list_all (\<lambda>i. list_ex (\<lambda>f. i \<in> corners f) F) [0 ..< length V]"

definition validMesh :: "'f point3d list \<Rightarrow> face list \<Rightarrow> bool" where
  "validMesh V F = (validIndices V F \<and> distinctCorners F \<and> manifold F \<and> allReferenced V F)"

subsection \<open>Quantities of the statements\<close>

text \<open>
  The index the registry holds for an edge, and the child faces of a face read off a
  registry.
\<close>

definition midpointIndex :: "EdgeList \<Rightarrow> edge \<Rightarrow> idxtype" where
  "midpointIndex E e = the (E (canon e))"

definition subdivided :: "EdgeList \<Rightarrow> face \<Rightarrow> face list" where
  "subdivided E f =
     childFaces f (midpointIndex E (v1 f, v2 f)) (midpointIndex E (v2 f, v3 f))
       (midpointIndex E (v3 f, v1 f))"

text \<open>
  What one face does to the occurrence counter and to the running sum \<open>t\<close> of vertex \<open>i\<close>
  in lines 116 to 125, and the totals over a face list, taken in the order of the list.
\<close>

definition faceCount :: "face \<Rightarrow> idxtype \<Rightarrow> nat" where
  "faceCount f i =
     (if v1 f = i then 1 else 0) + (if v2 f = i then 1 else 0) + (if v3 f = i then 1 else 0)"

definition faceSum :: "'f arith \<Rightarrow> 'f point3d list \<Rightarrow> idxtype \<Rightarrow> 'f point3d \<Rightarrow> face \<Rightarrow> 'f point3d" where
  "faceSum A V i t f =
     (let t1 = (if v1 f = i then padd A t (padd A (V ! v2 f) (V ! v3 f)) else t);
          t2 = (if v2 f = i then padd A t1 (padd A (V ! v1 f) (V ! v3 f)) else t1)
      in if v3 f = i then padd A t2 (padd A (V ! v1 f) (V ! v2 f)) else t2)"

definition occurrencesOf :: "face list \<Rightarrow> idxtype \<Rightarrow> nat" where
  "occurrencesOf F i = sum_list (map (\<lambda>f. faceCount f i) F)"

definition neighbourSum :: "'f arith \<Rightarrow> 'f point3d list \<Rightarrow> face list \<Rightarrow> idxtype \<Rightarrow> 'f point3d" where
  "neighbourSum A V F i = foldl (faceSum A V i) (origin A) F"

text \<open>The right-hand side of line 135 with these totals.\<close>

definition newPosition :: "'f arith \<Rightarrow> 'f point3d list \<Rightarrow> face list \<Rightarrow> idxtype \<Rightarrow> 'f point3d" where
  "newPosition A V F i =
     padd A (scale A (fdiv A (toFloat A 5) (toFloat A 8)) (V ! i))
            (scaledBy A (neighbourSum A V F i)
               (fdiv A (toFloat A 3) (fmul A (toFloat A 16) (toFloat A (real (occurrencesOf F i))))))"




text \<open>Every index of a face list is below \<open>n\<close>.\<close>

definition facesInRange :: "nat \<Rightarrow> face list \<Rightarrow> bool" where
  "facesInRange n M = list_all (\<lambda>f. v1 f < n \<and> v2 f < n \<and> v3 f < n) M"

text \<open>
  The invariant of the first loop on the vertex list and the registry: the input
  vertices are a prefix of the list, the registry has sorted keys and numbers its edges
  by the indices after the input vertices, every registered edge has one or two incident
  faces, and every registered vertex has the position that lines 225 to 248 give on the
  input vertices for one of the two orientations of its edge.
\<close>

definition registry ::
  "'f arith \<Rightarrow> 'f point3d list \<Rightarrow> face list \<Rightarrow> 'f point3d list \<Rightarrow> EdgeList \<Rightarrow> bool" where
  "registry A origVert mesh V E \<longleftrightarrow>
     length origVert \<le> length V \<and> take (length origVert) V = origVert \<and>
     finite (dom E) \<and> (\<forall>k \<in> dom E. canon k = k \<and> manifoldEdge mesh k) \<and>
     ran E = {length origVert ..< length V} \<and>
     card (dom E) = length V - length origVert \<and>
     (\<forall>k i. E k = Some i \<longrightarrow>
        newVertexPosition A k origVert mesh = Inr (V ! i) \<or>
        newVertexPosition A (snd k, fst k) origVert mesh = Inr (V ! i))"

text \<open>
  Modelled from the spec: the contract of \<^verbatim>\<open>vec3d::normalize\<close> of the absent \<^verbatim>\<open>geometry.hpp\<close>,
  spec 4.6 and 8: a vector that is not zero is brought to unit length, up to the tolerance
  \<open>tol\<close>; nothing is said of the zero vector.
\<close>

definition normalizesWithin :: "('f \<Rightarrow> real) \<Rightarrow> real \<Rightarrow> 'f geometry \<Rightarrow> bool" where
  "normalizesWithin val tol G =
     (\<forall>v. vlength val v \<noteq> 0 \<longrightarrow> \<bar>vlength val (normalize_vec3d G v) - 1\<bar> \<le> tol)"

subsection \<open>The position formulas of the specification\<close>


fun specBoundaryMidpoint :: "real point3d \<Rightarrow> real point3d \<Rightarrow> real point3d" where
  "specBoundaryMidpoint (Point3d a1 a2 a3) (Point3d b1 b2 b3) =
     Point3d (1 / 2 * (a1 + b1)) (1 / 2 * (a2 + b2)) (1 / 2 * (a3 + b3))"


subsection \<open>Sample meshes\<close>

text \<open>
  An instance of the three geometric helpers for each arithmetic (constant face normal,
  unit weight; no rescaling in the one, division by the length in the other), and the
  meshes of the examples: a single triangle, two triangles sharing the edge 0-1, a
  triangle with an extra unused vertex, a triangle whose face names vertices that do not
  exist, and three triangles on one edge.
\<close>

definition sampleGeometry :: "'f arith \<Rightarrow> 'f geometry" where
  "sampleGeometry A =
     \<lparr>computeNormal = (\<lambda>p q r. Point3d (toFloat A 0) (toFloat A 0) (toFloat A 1)),
      angleAtVertex = (\<lambda>p q r. toFloat A 1),
      normalize_vec3d = (\<lambda>v. v)\<rparr>"

definition exactGeometry :: "real geometry" where
  "exactGeometry =
     \<lparr>computeNormal = (\<lambda>p q r. Point3d 0 0 1),
      angleAtVertex = (\<lambda>p q r. 1),
      normalize_vec3d = (\<lambda>v. scale exactArith (1 / vlength (\<lambda>x. x) v) v)\<rparr>"

definition triangleVertices :: "real point3d list" where
  "triangleVertices = [Point3d 0 0 0, Point3d 1 0 0, Point3d 0 1 0]"

definition triangleMesh :: "face list" where
  "triangleMesh = [mkFace 0 1 2]"

definition quadVertices :: "real point3d list" where
  "quadVertices = [Point3d 0 0 0, Point3d 1 0 0, Point3d 0 1 0, Point3d 1 (-3) 0]"

definition quadMesh :: "face list" where
  "quadMesh = [mkFace 0 1 2, mkFace 1 0 3]"

definition isolatedVertices :: "real point3d list" where
  "isolatedVertices = [Point3d 0 0 0, Point3d 1 0 0, Point3d 0 1 0, Point3d 5 5 5]"

definition danglingVertices :: "real point3d list" where
  "danglingVertices = [Point3d 0 0 0]"

definition bookVertices :: "real point3d list" where
  "bookVertices = [Point3d 0 0 0, Point3d 1 0 0, Point3d 0 1 0, Point3d 0 0 1, Point3d 0 (-1) 0]"

definition bookMesh :: "face list" where
  "bookMesh = [mkFace 0 1 2, mkFace 0 1 3, mkFace 0 1 4]"

text \<open>
  Three vertex lists of binary32 values. In \<open>roundingTriangle\<close> and \<open>roundingQuad\<close> a sum is
  rounded: \<open>1 + 2^-24\<close> lies half way between \<open>1\<close> and the next number \<open>1 + 2^-23\<close>, and is
  rounded to \<open>1\<close>. In \<open>roundingCorner\<close> no sum is rounded, but the product of \<open>5/8\<close> and
  \<open>1 + 2^-23\<close> is: it needs 26 bits.
\<close>

definition roundingTriangle :: "float32 point3d list" where
  "roundingTriangle =
     [Point3d (Finite 0) (Finite 0) (Finite 0),
      Point3d (Finite 1) (Finite 0) (Finite 0),
      Point3d (Finite (1 / 2 ^ 24)) (Finite 1) (Finite 0)]"


definition roundingQuad :: "float32 point3d list" where
  "roundingQuad =
     [Point3d (Finite 1) (Finite 0) (Finite 0),
      Point3d (Finite (1 / 2 ^ 24)) (Finite 1) (Finite 0),
      Point3d (Finite 0) (Finite 2) (Finite 0),
      Point3d (Finite 0) (Finite (- 2)) (Finite 0)]"

text \<open>
  Two stores of a caller: one with the triangle at the address \<open>0\<close> and nothing else, one
  with the same triangle at other addresses and other vectors around it.
\<close>

definition triangleStore :: "real store" where
  "triangleStore =
     \<lparr>pointVectors = (\<lambda>r. if r = 0 then triangleVertices else []),
      faceVectors = (\<lambda>r. if r = 0 then triangleMesh else [])\<rparr>"

definition crowdedStore :: "real store" where
  "crowdedStore =
     \<lparr>pointVectors = (\<lambda>r. if r = 5 then triangleVertices else quadVertices),
      faceVectors = (\<lambda>r. if r = 3 then triangleMesh else bookMesh)\<rparr>"

section \<open>Auxiliary lemmas\<close>

subsection \<open>Outcomes and vector access\<close>

lemma bindE_Inr [simp]: "bindE (Inr a) k = k a"
  by (simp add: bindE_def)

lemma bindE_Inl [simp]: "bindE (Inl e) k = Inl e"
  by (simp add: bindE_def)

lemma readAt_in [simp]: "i < length xs \<Longrightarrow> readAt xs i = Inr (xs ! i)"
  by (simp add: readAt_def)

lemma readAt_out [simp]: "\<not> i < length xs \<Longrightarrow> readAt xs i = Inl UndefinedBehaviour"
  by (simp add: readAt_def)

lemma writeAt_in [simp]: "i < length xs \<Longrightarrow> writeAt xs i v = Inr (xs[i := v])"
  by (simp add: writeAt_def)

subsection \<open>The two arithmetics\<close>

lemma padd_commute: "commutativeAdd A \<Longrightarrow> padd A p q = padd A q p"
  by (cases p; cases q) (simp add: commutativeAdd_def)

lemma commutativeAdd_exact: "commutativeAdd exactArith"
  by (simp add: commutativeAdd_def exactArith_def)

lemma fadd32_commute: "fadd32 x y = fadd32 y x"
  by (cases x; cases y) (auto simp: add.commute)

lemma commutativeAdd_binary32: "commutativeAdd binary32"
  by (simp add: commutativeAdd_def binary32_def fadd32_commute)

lemma ulp_numeral:
  "ulp (numeral k) x =
     (if 2 \<le> x then 2 * ulp (pred_numeral k) (x / 2)
      else if x < 1 then ulp (pred_numeral k) (2 * x) / 2
      else 1 / 2 ^ 23)"
  by (simp add: numeral_eq_Suc)

lemmas round32_eval = round32_def spacing_def roundEven_def ulp_numeral Let_def

subsection \<open>Edges up to orientation\<close>

lemma canon_cases: "canon e = e \<or> canon e = (snd e, fst e)"
  by (cases e) (auto simp: canon_def min_def max_def)

lemma canon_idem [simp]: "canon (canon e) = canon e"
  by (cases e) (auto simp: canon_def min_def max_def)

lemma canon_swap: "canon (b, a) = canon (a, b)"
  by (auto simp: canon_def min_def max_def)

lemma incident_swap: "incident (b, a) f = incident (a, b) f"
  by (auto simp: incident_def)

lemma opposite_swap: "opposite (b, a) f = opposite (a, b) f"
  by (auto simp: opposite_def)

lemma incident_canon [simp]: "incident (canon e) f = incident e f"
  using canon_cases [of e] by (auto simp: incident_def)

lemma opposite_canon [simp]: "opposite (canon e) f = opposite e f"
  using canon_cases [of e] by (auto simp: opposite_def)

lemma isBoundaryEdge_swap: "isBoundaryEdge (b, a) mesh = isBoundaryEdge (a, b) mesh"
proof -
  have "incident (b, a) = incident (a, b)"
    by (rule ext) (rule incident_swap)
  then show ?thesis
    by (simp add: isBoundaryEdge_def opposite_swap split: list.splits)
qed

lemma isBoundaryEdge_canon [simp]: "isBoundaryEdge (canon e) mesh = isBoundaryEdge e mesh"
  using canon_cases [of e] isBoundaryEdge_swap [of "snd e" "fst e" mesh] by auto

lemma manifoldEdge_canon [simp]: "manifoldEdge F (canon e) = manifoldEdge F e"
proof -
  have "incident (canon e) = incident e"
    by (rule ext) simp
  then show ?thesis
    by (simp add: manifoldEdge_def)
qed

lemma newVertexPosition_swap:
  assumes "commutativeAdd A"
  shows "newVertexPosition A (b, a) V mesh = newVertexPosition A (a, b) V mesh"
  unfolding newVertexPosition_def isBoundaryEdge_swap [of b a mesh]
  by (cases "a < length V"; cases "b < length V")
     (auto simp: padd_commute [OF assms, of "V ! b" "V ! a"] bindE_def
        split: sum.splits boundary.splits)

lemma newVertexPosition_canon:
  assumes "commutativeAdd A"
  shows "newVertexPosition A (canon e) V mesh = newVertexPosition A e V mesh"
  using canon_cases [of e] newVertexPosition_swap [OF assms, of "snd e" "fst e" V mesh] by auto

subsection \<open>Well-formed meshes\<close>

lemma opposite_corner: "opposite e f \<in> corners f"
  by (simp add: opposite_def corners_def)

lemma validIndices_corner:
  "validIndices V F \<Longrightarrow> f \<in> set F \<Longrightarrow> i \<in> corners f \<Longrightarrow> i < length V"
  by (auto simp: validIndices_def corners_def list_all_iff)

lemma validIndices_face:
  "validIndices V F \<Longrightarrow> f \<in> set F \<Longrightarrow> v1 f < length V \<and> v2 f < length V \<and> v3 f < length V"
  by (auto simp: validIndices_def list_all_iff)

lemma validIndices_edge:
  assumes "validIndices V F" "f \<in> set F" "e \<in> set (faceEdges f)"
  shows "fst e < length V \<and> snd e < length V"
  using validIndices_face [OF assms(1,2)] assms(3) by (auto simp: faceEdges_def)

lemma manifold_edge:
  "manifold F \<Longrightarrow> f \<in> set F \<Longrightarrow> e \<in> set (faceEdges f) \<Longrightarrow> manifoldEdge F e"
  unfolding manifold_def list_all_iff by blast

lemma filter_members:
  assumes "filter P xs = ys" "y \<in> set ys"
  shows "y \<in> set xs \<and> P y"
  using assms by auto

lemma incident_in_range:
  assumes "validIndices V F" "f \<in> set F" "incident (a, b) f"
  shows "a < length V \<and> b < length V"
  using assms validIndices_corner by (auto simp: incident_def)

lemma faceEdges_in_mesh:
  "f \<in> set F \<Longrightarrow> e \<in> set (faceEdges f) \<Longrightarrow> canon e \<in> meshEdges F"
  by (auto simp: meshEdges_def)

lemma incident_edge_in_mesh:
  assumes "distinctCorners F" "f \<in> set F" "incident (a, b) f" "a \<noteq> b"
  shows "canon (a, b) \<in> meshEdges F"
proof -
  have d: "v1 f \<noteq> v2 f" "v2 f \<noteq> v3 f" "v3 f \<noteq> v1 f"
    using assms(1,2) by (auto simp: distinctCorners_def list_all_iff)
  have "(a, b) \<in> set (faceEdges f) \<or> (b, a) \<in> set (faceEdges f)"
    using assms(3,4) by (auto simp: incident_def corners_def faceEdges_def)
  then have "\<exists>e \<in> set (faceEdges f). canon e = canon (a, b)"
    using canon_swap by blast
  then show ?thesis
    using assms(2) faceEdges_in_mesh by metis
qed


lemma meshEdges_Cons: "meshEdges (f # fs) = canon ` set (faceEdges f) \<union> meshEdges fs"
  by (auto simp: meshEdges_def)

subsection \<open>The boundary finder and the midpoint formulas\<close>

lemma isBoundaryEdge_Interior:
  assumes "isBoundaryEdge e mesh = Inr (Interior a b)"
  shows "\<exists>f g. filter (incident e) mesh = [f, g] \<and> a = opposite e f \<and> b = opposite e g"
  using assms by (auto simp: isBoundaryEdge_def split: list.splits)

lemma isBoundaryEdge_in_range:
  assumes "isBoundaryEdge e mesh = Inr (Interior a b)" "validIndices V mesh"
  shows "a < length V \<and> b < length V"
proof -
  obtain f g where fg: "filter (incident e) mesh = [f, g]" "a = opposite e f" "b = opposite e g"
    using isBoundaryEdge_Interior [OF assms(1)] by blast
  have "f \<in> set (filter (incident e) mesh)" "g \<in> set (filter (incident e) mesh)"
    unfolding fg(1) by simp_all
  then have "f \<in> set mesh" "g \<in> set mesh" by simp_all
  then show ?thesis
    using fg(2,3) assms(2) opposite_corner validIndices_corner by blast
qed

lemma isBoundaryEdge_defined:
  assumes "manifoldEdge mesh e"
  shows "\<exists>opp. isBoundaryEdge e mesh = Inr opp"
proof -
  from assms consider f where "filter (incident e) mesh = [f]"
    | f g where "filter (incident e) mesh = [f, g]"
    unfolding manifoldEdge_def
    by (cases "filter (incident e) mesh" rule: list.exhaust; simp)
       (metis (no_types, opaque_lifting) One_nat_def Suc_1 length_0_conv length_Suc_conv nat.inject)
  then show ?thesis
    by cases (simp_all add: isBoundaryEdge_def)
qed

lemma isBoundaryEdge_undefined:
  assumes "\<not> manifoldEdge mesh e"
  shows "isBoundaryEdge e mesh = Inl PreconditionViolated"
  using assms by (auto simp: isBoundaryEdge_def manifoldEdge_def split: list.splits)

lemma newVertexPosition_prefix:
  assumes "length origVert \<le> length V" "take (length origVert) V = origVert"
    and "fst e < length origVert" "snd e < length origVert" "validIndices origVert mesh"
  shows "newVertexPosition A e V mesh = newVertexPosition A e origVert mesh"
proof -
  have nth: "V ! i = origVert ! i" if "i < length origVert" for i
    using that assms(2) by (metis nth_take)
  show ?thesis
  proof (cases "isBoundaryEdge e mesh")
    case (Inl x)
    then show ?thesis by (simp add: newVertexPosition_def)
  next
    case (Inr opp)
    show ?thesis
    proof (cases opp)
      case Boundary
      then show ?thesis
        using Inr assms(1,3,4) by (simp add: newVertexPosition_def nth)
    next
      case (Interior a b)
      then have "a < length origVert \<and> b < length origVert"
        using Inr assms(5) isBoundaryEdge_in_range by blast
      then show ?thesis
        using Inr Interior assms(1,3,4) by (simp add: newVertexPosition_def nth)
    qed
  qed
qed

lemma newVertexPosition_defined:
  assumes "fst e < length origVert" "snd e < length origVert" "validIndices origVert mesh"
    and "manifoldEdge mesh e"
  shows "\<exists>p. newVertexPosition A e origVert mesh = Inr p"
proof -
  obtain opp where opp: "isBoundaryEdge e mesh = Inr opp"
    using isBoundaryEdge_defined [OF assms(4)] by blast
  show ?thesis
  proof (cases opp)
    case Boundary
    then show ?thesis using opp assms(1,2) by (simp add: newVertexPosition_def)
  next
    case (Interior a b)
    then have "a < length origVert \<and> b < length origVert"
      using opp assms(3) isBoundaryEdge_in_range by blast
    then show ?thesis using opp Interior assms(1,2) by (simp add: newVertexPosition_def)
  qed
qed


lemma newVertexPosition_boundary:
  assumes "validIndices V F" "filter (incident (a, b)) F = [f]"
  shows "newVertexPosition A (a, b) V F
           = Inr (scaledBy A (padd A (V ! a) (V ! b)) (toFloat A (1 / 2)))"
proof -
  have "f \<in> set F \<and> incident (a, b) f"
    by (rule filter_members [OF assms(2)]) simp
  then have "a < length V \<and> b < length V"
    using incident_in_range [OF assms(1)] by blast
  then show ?thesis
    using assms(2) by (simp add: newVertexPosition_def isBoundaryEdge_def)
qed

subsection \<open>getNewVertex\<close>

lemma registry_initial: "registry A origVert mesh origVert Map.empty"
  by (simp add: registry_def)

lemma registry_index_range:
  assumes "registry A V F V' E'" "E' k = Some i"
  shows "length V \<le> i \<and> i < length V'"
proof -
  have "i \<in> ran E'" using assms(2) by (rule ranI)
  then show ?thesis using assms(1) by (simp add: registry_def)
qed

lemma registry_inj:
  assumes "registry A V F V' E"
  shows "inj_on E (dom E)"
proof -
  have fin: "finite (dom E)" and c: "card (dom E) = length V' - length V"
    and r: "ran E = {length V ..< length V'}"
    using assms by (simp_all add: registry_def)
  have "E ` dom E = Some ` ran E"
  proof (intro set_eqI iffI)
    fix x assume "x \<in> E ` dom E"
    then obtain k i where "E k = Some i" "x = E k" by blast
    then show "x \<in> Some ` ran E" using ranI [of E k i] by simp
  next
    fix x assume "x \<in> Some ` ran E"
    then obtain i where "i \<in> ran E" "x = Some i" by blast
    then obtain k where "E k = Some i" "x = Some i" unfolding ran_def by blast
    then show "x \<in> E ` dom E" by (metis domI rev_image_eqI)
  qed
  then have "card (E ` dom E) = card (ran E)"
    by (simp add: card_image)
  then have "card (E ` dom E) = card (dom E)"
    using c r by simp
  then show ?thesis
    using fin by (rule eq_card_imp_inj_on [rotated])
qed

lemma registered_position:
  assumes "commutativeAdd A" "registry A V F V1 E" "getIndex E e = Inr i"
  shows "newVertexPosition A e V F = Inr (V1 ! i) \<and> length V \<le> i \<and> i < length V1"
proof -
  have k: "E (canon e) = Some i"
    using assms(3) by (simp add: getIndex_def split: option.splits)
  then have "newVertexPosition A (canon e) V F = Inr (V1 ! i) \<or>
      newVertexPosition A (snd (canon e), fst (canon e)) V F = Inr (V1 ! i)"
    using assms(2) unfolding registry_def by blast
  then have "newVertexPosition A (canon e) V F = Inr (V1 ! i)"
    using newVertexPosition_swap [OF assms(1), of "snd (canon e)" "fst (canon e)" V F] by auto
  then have "newVertexPosition A e V F = Inr (V1 ! i)"
    by (simp add: newVertexPosition_canon [OF assms(1)])
  then show ?thesis
    using registry_index_range [OF assms(2) k] by simp
qed

lemma getIndex_dom:
  "canon e \<in> dom E \<Longrightarrow> getIndex E e = Inr (midpointIndex E e)"
  by (auto simp: getIndex_def midpointIndex_def)

lemma map_le_Some: "E \<subseteq>\<^sub>m E' \<Longrightarrow> E k = Some i \<Longrightarrow> E' k = Some i"
  by (metis domI map_le_def)

lemma getNewVertex_step:
  assumes reg: "registry A origVert mesh V E"
    and e: "fst e < length origVert" "snd e < length origVert"
    and valid: "validIndices origVert mesh"
    and cnt: "manifoldEdge mesh e"
  shows "\<exists>i V' E'. getNewVertex A e V mesh E = Inr (i, V', E') \<and>
           registry A origVert mesh V' E' \<and>
           dom E' = insert (canon e) (dom E) \<and> E \<subseteq>\<^sub>m E' \<and> E' (canon e) = Some i"
proof (cases "contains E e")
  case True
  then obtain i where i: "E (canon e) = Some i"
    by (auto simp: contains_def)
  then have "getNewVertex A e V mesh E = Inr (i, V, E)"
    using True by (simp add: getNewVertex_def getIndex_def)
  moreover have "insert (canon e) (dom E) = dom E"
    using i by auto
  ultimately show ?thesis
    using reg i by (intro exI [of _ i] exI [of _ V] exI [of _ E]) simp
next
  case False
  then have none: "E (canon e) = None"
    by (simp add: contains_def)
  let ?n = "length origVert"
  from reg have len: "?n \<le> length V" and tk: "take ?n V = origVert"
    and fin: "finite (dom E)" and keys: "\<forall>k \<in> dom E. canon k = k \<and> manifoldEdge mesh k"
    and rn: "ran E = {?n ..< length V}" and cd: "card (dom E) = length V - ?n"
    and pos: "\<forall>k i. E k = Some i \<longrightarrow>
        newVertexPosition A k origVert mesh = Inr (V ! i) \<or>
        newVertexPosition A (snd k, fst k) origVert mesh = Inr (V ! i)"
    by (simp_all add: registry_def)
  obtain p where p: "newVertexPosition A e origVert mesh = Inr p"
    using newVertexPosition_defined [OF e valid cnt] by blast
  then have pV: "newVertexPosition A e V mesh = Inr p"
    using newVertexPosition_prefix [OF len tk e valid] by simp
  let ?E = "E(canon e \<mapsto> length V)"
  let ?V = "V @ [p]"
  have run: "getNewVertex A e V mesh E = Inr (length V, ?V, ?E)"
    using False pV by (simp add: getNewVertex_def add_def Let_def)
  have r1: "?n \<le> length ?V" "take ?n ?V = origVert"
    using len tk by simp_all
  have r2: "finite (dom ?E)" "\<forall>k \<in> dom ?E. canon k = k \<and> manifoldEdge mesh k"
    using fin keys cnt by simp_all
  have r3: "ran ?E = {?n ..< length ?V}"
    using none rn len by (auto simp: ran_map_upd)
  have "canon e \<notin> dom E" using none by auto
  then have r4: "card (dom ?E) = length ?V - ?n"
    using fin cd len by simp
  have r5: "newVertexPosition A k origVert mesh = Inr (?V ! i) \<or>
      newVertexPosition A (snd k, fst k) origVert mesh = Inr (?V ! i)" if "?E k = Some i" for k i
  proof (cases "k = canon e")
    case True
    then have "i = length V" using that by simp
    then have "newVertexPosition A e origVert mesh = Inr (?V ! i)"
      using p by simp
    moreover have "k = e \<or> e = (snd k, fst k)"
      using True canon_cases [of e] by auto
    ultimately show ?thesis by auto
  next
    case False
    then have Ek: "E k = Some i" using that by simp
    then have "i \<in> ran E" by (rule ranI)
    then have "i < length V" using rn by simp
    moreover have "newVertexPosition A k origVert mesh = Inr (V ! i) \<or>
        newVertexPosition A (snd k, fst k) origVert mesh = Inr (V ! i)"
      using pos Ek by blast
    ultimately show ?thesis by (simp add: nth_append)
  qed
  have "registry A origVert mesh ?V ?E"
    unfolding registry_def by (intro conjI allI impI r1 r2 r3 r4) (rule r5)
  moreover have "E \<subseteq>\<^sub>m ?E"
    using none by (auto simp: map_le_def)
  ultimately show ?thesis
    using run none by (intro exI [of _ "length V"] exI [of _ ?V] exI [of _ ?E]) simp
qed

lemma getNewVertex_unmanifold:
  assumes reg: "registry A origVert mesh V E" and cnt: "\<not> manifoldEdge mesh e"
  shows "getNewVertex A e V mesh E = Inl PreconditionViolated"
proof -
  have "\<not> contains E e"
  proof
    assume "contains E e"
    then have "canon e \<in> dom E" by (auto simp: contains_def)
    moreover have "\<forall>k \<in> dom E. canon k = k \<and> manifoldEdge mesh k"
      using reg by (simp add: registry_def)
    ultimately have "manifoldEdge mesh (canon e)"
      by blast
    then show False using cnt by simp
  qed
  then show ?thesis
    using isBoundaryEdge_undefined [OF cnt]
    by (simp add: getNewVertex_def add_def Let_def newVertexPosition_def)
qed

lemma getNewVertex_registered:
  assumes "getIndex L (a, b) = Inr i"
  shows "getNewVertex A (a, b) Vl mesh L = Inr (i, Vl, L) \<and>
         getNewVertex A (b, a) Vl mesh L = Inr (i, Vl, L)"
proof -
  have "L (canon (a, b)) = Some i"
    using assms by (simp add: getIndex_def split: option.splits)
  moreover have "canon (b, a) = canon (a, b)" by (rule canon_swap)
  ultimately show ?thesis
    by (simp add: getNewVertex_def contains_def getIndex_def)
qed

lemma getNewVertex_appends:
  assumes "getNewVertex A e Vl mesh L = Inr (j, Vl', L')"
  shows "Vl' = Vl \<or> (\<exists>p. Vl' = Vl @ [p] \<and> j = length Vl)"
  using assms
  by (auto simp: getNewVertex_def add_def bindE_def Let_def split: if_splits sum.splits)

subsection \<open>The first loop\<close>

lemma subdivideFace_step:
  assumes reg: "registry A origVert mesh V E" and f: "f \<in> set mesh"
    and valid: "validIndices origVert mesh" and man: "list_all (manifoldEdge mesh) (faceEdges f)"
  shows "\<exists>V' E'. subdivideFace A mesh f (V, M, E) = Inr (V', M @ subdivided E' f, E') \<and>
           registry A origVert mesh V' E' \<and>
           dom E' = dom E \<union> canon ` set (faceEdges f) \<and> E \<subseteq>\<^sub>m E'"
proof -
  have ix: "v1 f < length origVert" "v2 f < length origVert" "v3 f < length origVert"
    using validIndices_face [OF valid f] by simp_all
  have c1: "manifoldEdge mesh (v1 f, v2 f)" and c2: "manifoldEdge mesh (v2 f, v3 f)"
    and c3: "manifoldEdge mesh (v3 f, v1 f)"
    using man by (simp_all add: faceEdges_def)
  obtain a V1 E1 where s1: "getNewVertex A (v1 f, v2 f) V mesh E = Inr (a, V1, E1)"
    and g1: "registry A origVert mesh V1 E1" "dom E1 = insert (canon (v1 f, v2 f)) (dom E)"
      "E \<subseteq>\<^sub>m E1" "E1 (canon (v1 f, v2 f)) = Some a"
    using getNewVertex_step [OF reg _ _ valid c1] ix
    unfolding fst_conv snd_conv by blast
  obtain b V2 E2 where s2: "getNewVertex A (v2 f, v3 f) V1 mesh E1 = Inr (b, V2, E2)"
    and g2: "registry A origVert mesh V2 E2" "dom E2 = insert (canon (v2 f, v3 f)) (dom E1)"
      "E1 \<subseteq>\<^sub>m E2" "E2 (canon (v2 f, v3 f)) = Some b"
    using getNewVertex_step [OF g1(1) _ _ valid c2] ix
    unfolding fst_conv snd_conv by blast
  obtain c V3 E3 where s3: "getNewVertex A (v3 f, v1 f) V2 mesh E2 = Inr (c, V3, E3)"
    and g3: "registry A origVert mesh V3 E3" "dom E3 = insert (canon (v3 f, v1 f)) (dom E2)"
      "E2 \<subseteq>\<^sub>m E3" "E3 (canon (v3 f, v1 f)) = Some c"
    using getNewVertex_step [OF g2(1) _ _ valid c3] ix
    unfolding fst_conv snd_conv by blast
  have run: "subdivideFace A mesh f (V, M, E) = Inr (V3, M @ childFaces f a b c, E3)"
    by (simp add: subdivideFace_def s1 s2 s3)
  have "E3 (canon (v1 f, v2 f)) = Some a"
    by (rule map_le_Some [OF g3(3) map_le_Some [OF g2(3) g1(4)]])
  moreover have "E3 (canon (v2 f, v3 f)) = Some b"
    by (rule map_le_Some [OF g3(3) g2(4)])
  ultimately have "subdivided E3 f = childFaces f a b c"
    using g3(4) by (simp add: subdivided_def midpointIndex_def)
  moreover have "dom E3 = dom E \<union> canon ` set (faceEdges f)"
    using g1(2) g2(2) g3(2) by (auto simp: faceEdges_def)
  moreover have "E \<subseteq>\<^sub>m E3"
    using g1(3) g2(3) g3(3) map_le_trans by blast
  ultimately show ?thesis
    using run g3(1) by (intro exI [of _ V3] exI [of _ E3]) simp
qed

lemma subdivideFace_unmanifold:
  assumes reg: "registry A origVert mesh V E" and f: "f \<in> set mesh"
    and valid: "validIndices origVert mesh"
    and man: "\<not> list_all (manifoldEdge mesh) (faceEdges f)"
  shows "subdivideFace A mesh f (V, M, E) = Inl PreconditionViolated"
proof -
  have ix: "v1 f < length origVert" "v2 f < length origVert" "v3 f < length origVert"
    using validIndices_face [OF valid f] by simp_all
  show ?thesis
  proof (cases "manifoldEdge mesh (v1 f, v2 f)")
    case False
    then show ?thesis
      using getNewVertex_unmanifold [OF reg] by (simp add: subdivideFace_def)
  next
    case c1: True
    obtain a V1 E1 where s1: "getNewVertex A (v1 f, v2 f) V mesh E = Inr (a, V1, E1)"
      and g1: "registry A origVert mesh V1 E1"
      using getNewVertex_step [OF reg _ _ valid c1] ix
      unfolding fst_conv snd_conv by blast
    show ?thesis
    proof (cases "manifoldEdge mesh (v2 f, v3 f)")
      case False
      then show ?thesis
        using getNewVertex_unmanifold [OF g1] by (simp add: subdivideFace_def s1)
    next
      case c2: True
      obtain b V2 E2 where s2: "getNewVertex A (v2 f, v3 f) V1 mesh E1 = Inr (b, V2, E2)"
        and g2: "registry A origVert mesh V2 E2"
        using getNewVertex_step [OF g1 _ _ valid c2] ix
        unfolding fst_conv snd_conv by blast
      have "\<not> manifoldEdge mesh (v3 f, v1 f)"
        using man c1 c2 by (simp add: faceEdges_def)
      then show ?thesis
        using getNewVertex_unmanifold [OF g2] by (simp add: subdivideFace_def s1 s2)
    qed
  qed
qed

lemma subdivided_mono:
  assumes "E \<subseteq>\<^sub>m E'" "canon ` set (faceEdges f) \<subseteq> dom E"
  shows "subdivided E' f = subdivided E f"
proof -
  have "E' (canon e) = E (canon e)" if "e \<in> set (faceEdges f)" for e
  proof -
    have "canon e \<in> dom E" using assms(2) that by blast
    then show ?thesis using assms(1) by (simp add: map_le_def)
  qed
  then show ?thesis
    by (simp add: subdivided_def midpointIndex_def faceEdges_def)
qed

lemma subdivided_length: "length (subdivided E f) = 4"
  by (simp add: subdivided_def childFaces_def)

lemma subdivide_fold:
  assumes valid: "validIndices origVert mesh"
    and man: "\<forall>f \<in> set fs. list_all (manifoldEdge mesh) (faceEdges f)"
    and sub: "set fs \<subseteq> set mesh" and reg: "registry A origVert mesh V E"
  shows "\<exists>V' E'. foldE (subdivideFace A mesh) fs (V, M, E)
             = Inr (V', M @ concat (map (subdivided E') fs), E') \<and>
           registry A origVert mesh V' E' \<and> dom E' = dom E \<union> meshEdges fs \<and> E \<subseteq>\<^sub>m E'"
  using man sub reg
proof (induction fs arbitrary: V M E)
  case Nil
  then show ?case by (simp add: meshEdges_def)
next
  case (Cons f fs)
  then have f: "f \<in> set mesh" and fs: "set fs \<subseteq> set mesh"
    and mf: "list_all (manifoldEdge mesh) (faceEdges f)"
    and mfs: "\<forall>f \<in> set fs. list_all (manifoldEdge mesh) (faceEdges f)"
    by simp_all
  obtain V1 E1 where s: "subdivideFace A mesh f (V, M, E) = Inr (V1, M @ subdivided E1 f, E1)"
    and r1: "registry A origVert mesh V1 E1"
    and d1: "dom E1 = dom E \<union> canon ` set (faceEdges f)" and m1: "E \<subseteq>\<^sub>m E1"
    using subdivideFace_step [OF Cons.prems(3) f valid mf] by blast
  obtain V' E' where t: "foldE (subdivideFace A mesh) fs (V1, M @ subdivided E1 f, E1)
        = Inr (V', (M @ subdivided E1 f) @ concat (map (subdivided E') fs), E')"
    and r2: "registry A origVert mesh V' E'"
    and d2: "dom E' = dom E1 \<union> meshEdges fs" and m2: "E1 \<subseteq>\<^sub>m E'"
    using Cons.IH [OF mfs fs r1] by blast
  have "subdivided E' f = subdivided E1 f"
    by (rule subdivided_mono [OF m2]) (simp add: d1)
  then have "foldE (subdivideFace A mesh) (f # fs) (V, M, E)
      = Inr (V', M @ concat (map (subdivided E') (f # fs)), E')"
    using s t by simp
  moreover have "dom E' = dom E \<union> meshEdges (f # fs)"
    using d1 d2 by (auto simp: meshEdges_Cons)
  moreover have "E \<subseteq>\<^sub>m E'"
    using m1 m2 map_le_trans by blast
  ultimately show ?case
    using r2 by blast
qed

lemma subdivide_fold_unmanifold:
  assumes valid: "validIndices origVert mesh"
    and man: "\<not> (\<forall>f \<in> set fs. list_all (manifoldEdge mesh) (faceEdges f))"
    and sub: "set fs \<subseteq> set mesh" and reg: "registry A origVert mesh V E"
  shows "foldE (subdivideFace A mesh) fs (V, M, E) = Inl PreconditionViolated"
  using man sub reg
proof (induction fs arbitrary: V M E)
  case Nil
  then show ?case by simp
next
  case (Cons f fs)
  then have f: "f \<in> set mesh" and fs: "set fs \<subseteq> set mesh"
    by simp_all
  show ?case
  proof (cases "list_all (manifoldEdge mesh) (faceEdges f)")
    case False
    then show ?thesis
      using subdivideFace_unmanifold [OF Cons.prems(3) f valid] by simp
  next
    case True
    then have rest: "\<not> (\<forall>f \<in> set fs. list_all (manifoldEdge mesh) (faceEdges f))"
      using Cons.prems(1) by simp
    obtain V1 E1 where s: "subdivideFace A mesh f (V, M, E) = Inr (V1, M @ subdivided E1 f, E1)"
      and r1: "registry A origVert mesh V1 E1"
      using subdivideFace_step [OF Cons.prems(3) f valid True] by blast
    show ?thesis
      using s Cons.IH [OF rest fs r1] by simp
  qed
qed

lemma manifold_faces:
  "manifold F \<longleftrightarrow> (\<forall>f \<in> set F. list_all (manifoldEdge F) (faceEdges f))"
  by (simp add: manifold_def list_all_iff)

lemma subdivideFaces_result:
  assumes "validIndices origVert origMesh" "manifold origMesh"
  shows "\<exists>V' E'. subdivideFaces A origVert origMesh
             = Inr (V', concat (map (subdivided E') origMesh), E') \<and>
           registry A origVert origMesh V' E' \<and> dom E' = meshEdges origMesh"
proof -
  have h: "\<forall>f \<in> set origMesh. list_all (manifoldEdge origMesh) (faceEdges f)"
    using assms(2) by (simp add: manifold_faces)
  show ?thesis
    using subdivide_fold [OF assms(1) h subset_refl registry_initial [of A origVert origMesh],
        where M = "[]"]
    by (simp add: subdivideFaces_def)
qed

lemma subdivideFaces_unmanifold:
  assumes "validIndices origVert origMesh" "\<not> manifold origMesh"
  shows "subdivideFaces A origVert origMesh = Inl PreconditionViolated"
proof -
  have h: "\<not> (\<forall>f \<in> set origMesh. list_all (manifoldEdge origMesh) (faceEdges f))"
    using assms(2) by (simp add: manifold_faces)
  show ?thesis
    using subdivide_fold_unmanifold [OF assms(1) h subset_refl
        registry_initial [of A origVert origMesh], where M = "[]"]
    by (simp add: subdivideFaces_def)
qed

lemma subdivided_in_range:
  assumes reg: "registry A V F V' E'" and d: "dom E' = meshEdges F"
    and valid: "validIndices V F" and f: "f \<in> set F"
  shows "facesInRange (length V') (subdivided E' f)"
proof -
  have len: "length V \<le> length V'" using reg by (simp add: registry_def)
  have ix: "v1 f < length V'" "v2 f < length V'" "v3 f < length V'"
    using validIndices_face [OF valid f] len by simp_all
  have mid: "midpointIndex E' e < length V'" if "e \<in> set (faceEdges f)" for e
  proof -
    have "canon e \<in> dom E'" using that f d by (auto simp: meshEdges_def)
    then obtain i where "E' (canon e) = Some i" by blast
    then show ?thesis
      using registry_index_range [OF reg] by (simp add: midpointIndex_def)
  qed
  have "midpointIndex E' (v1 f, v2 f) < length V'" "midpointIndex E' (v2 f, v3 f) < length V'"
    "midpointIndex E' (v3 f, v1 f) < length V'"
    by (rule mid, simp add: faceEdges_def)+
  then show ?thesis
    using ix by (simp add: facesInRange_def subdivided_def childFaces_def mkFace_def)
qed

lemma facesInRange_concat:
  "(\<And>f. f \<in> set F \<Longrightarrow> facesInRange n (g f)) \<Longrightarrow> facesInRange n (concat (map g F))"
  by (induction F) (simp_all add: facesInRange_def)

lemma concat_block:
  assumes "\<forall>x \<in> set xs. length (g x) = m" "k < length xs"
  shows "take m (drop (m * k) (concat (map g xs))) = g (xs ! k)"
  using assms
proof (induction xs arbitrary: k)
  case Nil
  then show ?case by simp
next
  case (Cons x xs)
  show ?case
  proof (cases k)
    case 0
    then show ?thesis using Cons.prems by simp
  next
    case (Suc k')
    then have "take m (drop (m * k') (concat (map g xs))) = g (xs ! k')"
      using Cons by simp
    then show ?thesis using Suc Cons.prems by simp
  qed
qed

lemma length_concat_block:
  "\<forall>x \<in> set xs. length (g x) = m \<Longrightarrow> length (concat (map g xs)) = m * length xs"
  by (induction xs) simp_all

subsection \<open>The accumulators\<close>

lemma accumulateVertex_run:
  assumes "i < length V" "j < length V" "k < length V" "length occ = length V" "length tmp = length V"
  shows "accumulateVertex A V i j k (occ, tmp)
           = Inr (occ[i := occ ! i + 1], tmp[i := padd A (tmp ! i) (padd A (V ! j) (V ! k))])"
  using assms by (simp add: accumulateVertex_def)

lemma accumulateFace_run:
  assumes ix: "v1 f < length V" "v2 f < length V" "v3 f < length V"
    and len: "length occ = length V" "length tmp = length V"
  shows "\<exists>occ' tmp'. accumulateFace A V f (occ, tmp) = Inr (occ', tmp') \<and>
           length occ' = length V \<and> length tmp' = length V \<and>
           (\<forall>i < length V. occ' ! i = occ ! i + faceCount f i \<and>
                            tmp' ! i = faceSum A V i (tmp ! i) f)"
proof -
  let ?o1 = "occ[v1 f := occ ! v1 f + 1]"
  let ?t1 = "tmp[v1 f := padd A (tmp ! v1 f) (padd A (V ! v2 f) (V ! v3 f))]"
  let ?o2 = "?o1[v2 f := ?o1 ! v2 f + 1]"
  let ?t2 = "?t1[v2 f := padd A (?t1 ! v2 f) (padd A (V ! v1 f) (V ! v3 f))]"
  let ?o3 = "?o2[v3 f := ?o2 ! v3 f + 1]"
  let ?t3 = "?t2[v3 f := padd A (?t2 ! v3 f) (padd A (V ! v1 f) (V ! v2 f))]"
  have s1: "accumulateVertex A V (v1 f) (v2 f) (v3 f) (occ, tmp) = Inr (?o1, ?t1)"
    by (rule accumulateVertex_run [OF ix(1) ix(2) ix(3) len])
  have s2: "accumulateVertex A V (v2 f) (v1 f) (v3 f) (?o1, ?t1) = Inr (?o2, ?t2)"
    by (rule accumulateVertex_run [OF ix(2) ix(1) ix(3)]) (simp_all add: len)
  have s3: "accumulateVertex A V (v3 f) (v1 f) (v2 f) (?o2, ?t2) = Inr (?o3, ?t3)"
    by (rule accumulateVertex_run [OF ix(3) ix(1) ix(2)]) (simp_all add: len)
  have run: "accumulateFace A V f (occ, tmp) = Inr (?o3, ?t3)"
    by (simp only: accumulateFace_def s1 s2 s3 bindE_Inr)
  have o: "?o3 ! i = occ ! i + faceCount f i" if "i < length V" for i
    using that len ix by (simp add: faceCount_def nth_list_update)
  have t: "?t3 ! i = faceSum A V i (tmp ! i) f" if "i < length V" for i
    using that len ix by (simp add: faceSum_def Let_def nth_list_update)
  show ?thesis
    using run o t len by (intro exI [of _ ?o3] exI [of _ ?t3]) simp
qed

lemma accumulate_fold:
  assumes "validIndices V fs" "length occ = length V" "length tmp = length V"
  shows "\<exists>occ' tmp'. foldE (accumulateFace A V) fs (occ, tmp) = Inr (occ', tmp') \<and>
           length occ' = length V \<and> length tmp' = length V \<and>
           (\<forall>i < length V. occ' ! i = occ ! i + occurrencesOf fs i \<and>
                            tmp' ! i = foldl (faceSum A V i) (tmp ! i) fs)"
  using assms
proof (induction fs arbitrary: occ tmp)
  case Nil
  then show ?case by (simp add: occurrencesOf_def)
next
  case (Cons f fs)
  then have ix: "v1 f < length V" "v2 f < length V" "v3 f < length V"
    and rest: "validIndices V fs"
    by (simp_all add: validIndices_def)
  obtain o1 t1 where s: "accumulateFace A V f (occ, tmp) = Inr (o1, t1)"
    and l1: "length o1 = length V" "length t1 = length V"
    and v1: "\<forall>i < length V. o1 ! i = occ ! i + faceCount f i \<and>
                             t1 ! i = faceSum A V i (tmp ! i) f"
    using accumulateFace_run [OF ix Cons.prems(2,3)] by blast
  obtain o2 t2 where r: "foldE (accumulateFace A V) fs (o1, t1) = Inr (o2, t2)"
    and l2: "length o2 = length V" "length t2 = length V"
    and v2: "\<forall>i < length V. o2 ! i = o1 ! i + occurrencesOf fs i \<and>
                             t2 ! i = foldl (faceSum A V i) (t1 ! i) fs"
    using Cons.IH [OF rest l1] by blast
  have "foldE (accumulateFace A V) (f # fs) (occ, tmp) = Inr (o2, t2)"
    using s r by simp
  moreover have "\<forall>i < length V. o2 ! i = occ ! i + occurrencesOf (f # fs) i \<and>
                                t2 ! i = foldl (faceSum A V i) (tmp ! i) (f # fs)"
    using v1 v2 by (simp add: occurrencesOf_def)
  ultimately show ?case
    using l2 by blast
qed

lemma accumulate_result:
  assumes "validIndices V F"
  shows "accumulate A V F = Inr (map (occurrencesOf F) [0 ..< length V],
                                map (neighbourSum A V F) [0 ..< length V])"
proof -
  obtain occ tmp where r: "accumulate A V F = Inr (occ, tmp)"
    and l: "length occ = length V" "length tmp = length V"
    and v: "\<forall>i < length V. occ ! i = replicate (length V) 0 ! i + occurrencesOf F i \<and>
              tmp ! i = foldl (faceSum A V i) (replicate (length V) (origin A) ! i) F"
    using accumulate_fold [OF assms, of "replicate (length V) 0" "replicate (length V) (origin A)" A]
    unfolding accumulate_def by auto
  have "occ = map (occurrencesOf F) [0 ..< length V]"
    using l v by (intro nth_equalityI) simp_all
  moreover have "tmp = map (neighbourSum A V F) [0 ..< length V]"
    using l v by (intro nth_equalityI) (simp_all add: neighbourSum_def)
  ultimately show ?thesis using r by simp
qed

lemma occurrencesOf_zero:
  "occurrencesOf F i = 0 \<longleftrightarrow> \<not> list_ex (\<lambda>f. i \<in> corners f) F"
  by (induction F) (auto simp: occurrencesOf_def faceCount_def corners_def)

lemma allReferenced_iff:
  "allReferenced V F \<longleftrightarrow> \<not> (\<exists>i < length V. occurrencesOf F i = 0)"
  by (auto simp: allReferenced_def occurrencesOf_zero list_all_iff)





subsection \<open>Repositioning\<close>

lemma fold_update_length: "length (fold (\<lambda>i d. d[i := g i]) js d) = length d"
  by (induction js arbitrary: d) simp_all

lemma fold_update_nth:
  "j < length d \<Longrightarrow> fold (\<lambda>i d. d[i := g i]) js d ! j = (if j \<in> set js then g j else d ! j)"
  by (induction js arbitrary: d) (auto simp: nth_list_update fold_update_length)

lemma reposition_fold:
  assumes "\<forall>i \<in> set js. i < length V" "length occ = length V" "length tmp = length V"
    "length V \<le> length dv"
  shows "foldE (repositionVertex A V occ tmp) js dv =
           (if \<exists>i \<in> set js. occ ! i = 0 then Inl AssertionFailed
            else Inr (fold (\<lambda>i d. d[i :=
                   padd A (scale A (fdiv A (toFloat A 5) (toFloat A 8)) (V ! i))
                     (scaledBy A (tmp ! i)
                        (fdiv A (toFloat A 3)
                           (fmul A (toFloat A 16) (toFloat A (real (occ ! i))))))]) js dv))"
  using assms
proof (induction js arbitrary: dv)
  case Nil
  then show ?case by simp
next
  case (Cons i js)
  then have i: "i < length V" "i < length occ" "i < length tmp" "i < length dv"
    by simp_all
  show ?case
  proof (cases "occ ! i = 0")
    case True
    then show ?thesis using i by (simp add: repositionVertex_def)
  next
    case False
    let ?dv = "dv[i := padd A (scale A (fdiv A (toFloat A 5) (toFloat A 8)) (V ! i))
                     (scaledBy A (tmp ! i)
                        (fdiv A (toFloat A 3)
                           (fmul A (toFloat A 16) (toFloat A (real (occ ! i))))))]"
    have "repositionVertex A V occ tmp i dv = Inr ?dv"
      using False i by (simp add: repositionVertex_def)
    moreover have "length V \<le> length ?dv" using Cons.prems(4) by simp
    ultimately show ?thesis
      using False Cons.IH [of ?dv] Cons.prems(1,2,3) by simp
  qed
qed

lemma reposition_result:
  assumes "length V \<le> length dv"
  shows "reposition A V (map (occurrencesOf F) [0 ..< length V])
            (map (neighbourSum A V F) [0 ..< length V]) dv =
           (if \<exists>i < length V. occurrencesOf F i = 0 then Inl AssertionFailed
            else Inr (map (newPosition A V F) [0 ..< length V] @ drop (length V) dv))"
proof -
  let ?occ = "map (occurrencesOf F) [0 ..< length V]"
  let ?tmp = "map (neighbourSum A V F) [0 ..< length V]"
  let ?g = "\<lambda>i. padd A (scale A (fdiv A (toFloat A 5) (toFloat A 8)) (V ! i))
                     (scaledBy A (?tmp ! i)
                        (fdiv A (toFloat A 3)
                           (fmul A (toFloat A 16) (toFloat A (real (?occ ! i))))))"
  have run: "reposition A V ?occ ?tmp dv =
      (if \<exists>i \<in> set [0 ..< length V]. ?occ ! i = 0 then Inl AssertionFailed
       else Inr (fold (\<lambda>i d. d[i := ?g i]) [0 ..< length V] dv))"
    unfolding reposition_def by (rule reposition_fold) (simp_all add: assms)
  have c: "(\<exists>i \<in> set [0 ..< length V]. ?occ ! i = 0) \<longleftrightarrow> (\<exists>i < length V. occurrencesOf F i = 0)"
    by auto
  have "fold (\<lambda>i d. d[i := ?g i]) [0 ..< length V] dv
      = map (newPosition A V F) [0 ..< length V] @ drop (length V) dv"
  proof (rule nth_equalityI)
    show "length (fold (\<lambda>i d. d[i := ?g i]) [0 ..< length V] dv)
        = length (map (newPosition A V F) [0 ..< length V] @ drop (length V) dv)"
      using assms by (simp add: fold_update_length)
  next
    fix j assume "j < length (fold (\<lambda>i d. d[i := ?g i]) [0 ..< length V] dv)"
    then have j: "j < length dv" by (simp add: fold_update_length)
    show "fold (\<lambda>i d. d[i := ?g i]) [0 ..< length V] dv ! j
        = (map (newPosition A V F) [0 ..< length V] @ drop (length V) dv) ! j"
      using j assms by (simp add: fold_update_nth nth_append newPosition_def)
  qed
  then show ?thesis
    using run c by simp
qed

lemma reposition_frame:
  assumes "foldE (repositionVertex A V occ tmp) js dv = Inr dv'" "\<forall>j \<in> set js. j < length V"
  shows "length dv' = length dv \<and> (\<forall>i \<ge> length V. dv' ! i = dv ! i)"
  using assms
proof (induction js arbitrary: dv)
  case Nil
  then show ?case by simp
next
  case (Cons j js)
  from Cons.prems(1) obtain d1 where s: "repositionVertex A V occ tmp j dv = Inr d1"
    and r: "foldE (repositionVertex A V occ tmp) js d1 = Inr dv'"
    by (auto simp: bindE_def split: sum.splits)
  from s obtain p where d1: "d1 = dv[j := p]"
    by (auto simp: repositionVertex_def bindE_def readAt_def writeAt_def split: if_splits sum.splits)
  have "length dv' = length d1 \<and> (\<forall>i \<ge> length V. dv' ! i = d1 ! i)"
    using Cons.IH [OF r] Cons.prems(2) by simp
  moreover have "j < length V" using Cons.prems(2) by simp
  ultimately show ?case
    using d1 by simp
qed

lemma reposition_keeps:
  assumes "reposition A V occ tmp d = Inr d'"
  shows "length d' = length d \<and> (\<forall>i \<ge> length V. d' ! i = d ! i)"
  using assms unfolding reposition_def by (rule reposition_frame) simp

lemma kept_tail:
  assumes "length V \<le> i" "i < length V1"
  shows "(map g [0 ..< length V] @ drop (length V) V1) ! i = V1 ! i"
  using assms by (simp add: nth_append)

lemma kept_length:
  assumes "length V \<le> length V1"
  shows "length (map g [0 ..< length V] @ drop (length V) V1) = length V1"
  using assms by simp

subsection \<open>Normals\<close>

lemma addFaceNormal_run:
  assumes "v1 f < length dv" "v2 f < length dv" "v3 f < length dv" "length dn = length dv"
  shows "\<exists>dn'. addFaceNormal A G dv f dn = Inr dn' \<and> length dn' = length dv"
  using assms by (simp add: addFaceNormal_def Let_def)

lemma normals_fold:
  assumes "facesInRange (length dv) M" "length dn = length dv"
  shows "\<exists>dn'. foldE (addFaceNormal A G dv) M dn = Inr dn' \<and> length dn' = length dv"
  using assms
proof (induction M arbitrary: dn)
  case Nil
  then show ?case by simp
next
  case (Cons f M)
  then have "v1 f < length dv" "v2 f < length dv" "v3 f < length dv" "facesInRange (length dv) M"
    by (simp_all add: facesInRange_def)
  then show ?case
    using addFaceNormal_run [of f dv dn A G] Cons.IH Cons.prems(2) by fastforce
qed

lemma accumulateNormals_result:
  assumes "facesInRange (length dv) M"
  shows "\<exists>acc. accumulateNormals A G dv M = Inr acc \<and> length acc = length dv"
  using normals_fold [OF assms, of "replicate (length dv) (origin A)" A G]
  by (simp add: accumulateNormals_def)

subsection \<open>The whole pass\<close>

lemma loopSubdivision_run:
  assumes valid: "validIndices V F" and man: "manifold F"
  shows "\<exists>V' E'. subdivideFaces A V F = Inr (V', concat (map (subdivided E') F), E') \<and>
           registry A V F V' E' \<and> dom E' = meshEdges F \<and>
           (if allReferenced V F
            then \<exists>acc. length acc = length V' \<and>
                   accumulateNormals A G
                     (map (newPosition A V F) [0 ..< length V] @ drop (length V) V')
                     (concat (map (subdivided E') F)) = Inr acc \<and>
                   loopSubdivision A G V F dv dm dn
                     = Inr (map (newPosition A V F) [0 ..< length V] @ drop (length V) V',
                            concat (map (subdivided E') F), map (normalize_vec3d G) acc)
            else loopSubdivision A G V F dv dm dn = Inl AssertionFailed)"
proof -
  obtain V' E' where s: "subdivideFaces A V F = Inr (V', concat (map (subdivided E') F), E')"
    and reg: "registry A V F V' E'" and d: "dom E' = meshEdges F"
    using subdivideFaces_result [OF valid man] by blast
  let ?M = "concat (map (subdivided E') F)"
  let ?dv = "map (newPosition A V F) [0 ..< length V] @ drop (length V) V'"
  have len: "length V \<le> length V'" using reg by (simp add: registry_def)
  have acc: "accumulate A V F = Inr (map (occurrencesOf F) [0 ..< length V],
                                     map (neighbourSum A V F) [0 ..< length V])"
    by (rule accumulate_result [OF valid])
  note rep = reposition_result [OF len, of A F]
  show ?thesis
  proof (cases "allReferenced V F")
    case True
    then have r: "reposition A V (map (occurrencesOf F) [0 ..< length V])
            (map (neighbourSum A V F) [0 ..< length V]) V' = Inr ?dv"
      using rep by (simp add: allReferenced_iff)
    have l: "length ?dv = length V'" using len by simp
    have "facesInRange (length V') ?M"
      by (rule facesInRange_concat) (rule subdivided_in_range [OF reg d valid])
    then have "facesInRange (length ?dv) ?M" using l by simp
    then obtain N where n: "accumulateNormals A G ?dv ?M = Inr N" "length N = length ?dv"
      using accumulateNormals_result by blast
    have "loopSubdivision A G V F dv dm dn = Inr (?dv, ?M, map (normalize_vec3d G) N)"
      by (simp only: loopSubdivision_def recomputeNormals_def Let_def s acc r n bindE_Inr prod.case)
    then show ?thesis
      using True s reg d n l by (intro exI [of _ V'] exI [of _ E']) auto
  next
    case False
    then have r: "reposition A V (map (occurrencesOf F) [0 ..< length V])
            (map (neighbourSum A V F) [0 ..< length V]) V' = Inl AssertionFailed"
      using rep by (simp add: allReferenced_iff)
    have "loopSubdivision A G V F dv dm dn = Inl AssertionFailed"
      by (simp only: loopSubdivision_def Let_def s acc r bindE_Inr bindE_Inl prod.case)
    then show ?thesis
      using False s reg d by (intro exI [of _ V'] exI [of _ E']) simp
  qed
qed

lemma loopSubdivision_unmanifold:
  assumes "validIndices V F" "\<not> manifold F"
  shows "loopSubdivision A G V F dv dm dn = Inl PreconditionViolated"
  using subdivideFaces_unmanifold [OF assms, of A]
  by (simp add: loopSubdivision_def)

lemma pass_result:
  assumes "validMesh V F"
  obtains V1 E acc where
    "subdivideFaces A V F = Inr (V1, concat (map (subdivided E) F), E)"
    "registry A V F V1 E" "dom E = meshEdges F"
    "loopSubdivision A G V F dv dm dn
       = Inr (map (newPosition A V F) [0 ..< length V] @ drop (length V) V1,
              concat (map (subdivided E) F), map (normalize_vec3d G) acc)"
    "accumulateNormals A G (map (newPosition A V F) [0 ..< length V] @ drop (length V) V1)
       (concat (map (subdivided E) F)) = Inr acc"
    "length acc = length V1"
proof -
  from assms have valid: "validIndices V F" and man: "manifold F" and ref: "allReferenced V F"
    by (simp_all add: validMesh_def)
  obtain V1 E where s: "subdivideFaces A V F = Inr (V1, concat (map (subdivided E) F), E)"
    and reg: "registry A V F V1 E" and d: "dom E = meshEdges F"
    and run: "if allReferenced V F
            then \<exists>acc. length acc = length V1 \<and>
                   accumulateNormals A G
                     (map (newPosition A V F) [0 ..< length V] @ drop (length V) V1)
                     (concat (map (subdivided E) F)) = Inr acc \<and>
                   loopSubdivision A G V F dv dm dn
                     = Inr (map (newPosition A V F) [0 ..< length V] @ drop (length V) V1,
                            concat (map (subdivided E) F), map (normalize_vec3d G) acc)
            else loopSubdivision A G V F dv dm dn = Inl AssertionFailed"
    using loopSubdivision_run [OF valid man, of A G dv dm dn] by blast
  then obtain acc where "length acc = length V1"
    "accumulateNormals A G (map (newPosition A V F) [0 ..< length V] @ drop (length V) V1)
       (concat (map (subdivided E) F)) = Inr acc"
    "loopSubdivision A G V F dv dm dn
      = Inr (map (newPosition A V F) [0 ..< length V] @ drop (length V) V1,
             concat (map (subdivided E) F), map (normalize_vec3d G) acc)"
    using ref by auto
  then show ?thesis
    using that s reg d by blast
qed

lemma output_midpoint:
  assumes "validMesh V F" "subdivideFaces A V F = Inr (V1, M1, E)" "length V \<le> i" "i < length V1"
  shows "outputVertices (loopSubdivision A G V F dv dm dn) ! i = V1 ! i"
proof -
  obtain V1' E' acc where s: "subdivideFaces A V F = Inr (V1', concat (map (subdivided E') F), E')"
    and reg: "registry A V F V1' E'" and d: "dom E' = meshEdges F"
    and out: "loopSubdivision A G V F dv dm dn
       = Inr (map (newPosition A V F) [0 ..< length V] @ drop (length V) V1',
              concat (map (subdivided E') F), map (normalize_vec3d G) acc)"
    and an: "accumulateNormals A G
       (map (newPosition A V F) [0 ..< length V] @ drop (length V) V1')
       (concat (map (subdivided E') F)) = Inr acc"
    and ln: "length acc = length V1'"
    by (rule pass_result [OF assms(1)])
  have "V1' = V1"
    using s assms(2) by simp
  then show ?thesis
    using out kept_tail [OF assms(3,4)] by (simp add: outputVertices_def)
qed


subsection \<open>The sample meshes\<close>

lemmas validMesh_eval = validMesh_def validIndices_def distinctCorners_def manifold_def
  manifoldEdge_def allReferenced_def mkFace_def faceEdges_def incident_def corners_def upt_rec

lemma validMesh_triangle: "validMesh triangleVertices triangleMesh"
  by (simp add: validMesh_eval triangleVertices_def triangleMesh_def)

lemma validMesh_quad: "validMesh quadVertices quadMesh"
  by (simp add: validMesh_eval quadVertices_def quadMesh_def)

lemma validMesh_roundingTriangle: "validMesh roundingTriangle triangleMesh"
  by (simp add: validMesh_eval roundingTriangle_def triangleMesh_def)

lemma validMesh_roundingQuad: "validMesh roundingQuad quadMesh"
  by (simp add: validMesh_eval roundingQuad_def quadMesh_def)

lemma manifold_triangle: "manifold triangleMesh"
  using validMesh_triangle by (simp add: validMesh_def)

lemma validIndices_isolated: "validIndices isolatedVertices triangleMesh"
  by (simp add: validIndices_def isolatedVertices_def triangleMesh_def mkFace_def)

lemma isolated_unreferenced: "\<not> allReferenced isolatedVertices triangleMesh"
  by (simp add: allReferenced_def isolatedVertices_def triangleMesh_def mkFace_def corners_def
      upt_rec)

lemma validIndices_book: "validIndices bookVertices bookMesh"
  by (simp add: validIndices_def bookVertices_def bookMesh_def mkFace_def)

lemma book_unmanifold: "\<not> manifold bookMesh"
  by (simp add: manifold_def manifoldEdge_def bookMesh_def mkFace_def faceEdges_def
      incident_def corners_def)


lemma triangle_boundary: "filter (incident (1, 2)) triangleMesh = [mkFace 0 1 2]"
  by (simp add: triangleMesh_def mkFace_def incident_def corners_def)

lemma meshEdges_quad: "meshEdges quadMesh = {(0, 1), (1, 2), (0, 2), (0, 3), (1, 3)}"
  by (auto simp: meshEdges_def quadMesh_def mkFace_def faceEdges_def canon_def)

lemma card_meshEdges_quad: "card (meshEdges quadMesh) = 5"
  by (simp add: meshEdges_quad)

subsection \<open>Normalisation in exact arithmetic\<close>

lemma vlength_zero: "vlength val v = 0 \<longleftrightarrow> (case v of Point3d a b c \<Rightarrow> val a = 0 \<and> val b = 0 \<and> val c = 0)"
proof (cases v)
  case (Point3d a b c)
  have "(val a)\<^sup>2 + (val b)\<^sup>2 + (val c)\<^sup>2 = 0 \<longleftrightarrow> val a = 0 \<and> val b = 0 \<and> val c = 0"
    by (simp add: sum_power2_eq_zero_iff add_nonneg_eq_0_iff)
  then show ?thesis
    using Point3d by simp
qed

lemma vlength_normalized:
  assumes "vlength (\<lambda>x. x) v \<noteq> 0"
  shows "vlength (\<lambda>x. x) (scale exactArith (1 / vlength (\<lambda>x. x) v) v) = 1"
proof (cases v)
  case (Point3d a b c)
  let ?q = "a\<^sup>2 + b\<^sup>2 + c\<^sup>2"
  have q: "0 < ?q"
    using assms Point3d by (simp add: less_le)
  have "(a / sqrt ?q)\<^sup>2 + (b / sqrt ?q)\<^sup>2 + (c / sqrt ?q)\<^sup>2
      = a\<^sup>2 / ?q + b\<^sup>2 / ?q + c\<^sup>2 / ?q"
    using q by (simp add: power_divide)
  also have "\<dots> = ?q / ?q"
    by (simp only: add_divide_distrib)
  also have "\<dots> = 1"
    using q by simp
  finally have one: "(a / sqrt ?q)\<^sup>2 + (b / sqrt ?q)\<^sup>2 + (c / sqrt ?q)\<^sup>2 = 1" .
  have "scale exactArith (1 / vlength (\<lambda>x. x) v) v
      = Point3d (a / sqrt ?q) (b / sqrt ?q) (c / sqrt ?q)"
    using Point3d by (simp add: exactArith_def)
  then show ?thesis
    using one by simp
qed

lemma exactGeometry_normalizes: "normalizesWithin (\<lambda>x. x) tol exactGeometry" if "0 \<le> tol"
  using that by (simp add: normalizesWithin_def exactGeometry_def vlength_normalized)

subsection \<open>Evaluations on the sample meshes\<close>

lemmas mesh_eval = subdivideFaces_def subdivideFace_def getNewVertex_def contains_def add_def
  getIndex_def canon_def newVertexPosition_def isBoundaryEdge_def incident_def corners_def
  opposite_def childFaces_def mkFace_def binary32_def

lemma first_loop_triangle:
  "subdivideFaces binary32 roundingTriangle triangleMesh
     = Inr (roundingTriangle @
              [Point3d (Finite (1 / 2)) (Finite 0) (Finite 0),
               Point3d (Finite (1 / 2)) (Finite (1 / 2)) (Finite 0),
               Point3d (Finite (1 / 2 ^ 25)) (Finite (1 / 2)) (Finite 0)],
            [mkFace 0 3 5, mkFace 3 4 5, mkFace 5 4 2, mkFace 3 1 4],
            [(0, 1) \<mapsto> 3, (1, 2) \<mapsto> 4, (0, 2) \<mapsto> 5])"
  by (simp add: mesh_eval roundingTriangle_def triangleMesh_def round32_eval eval_nat_numeral)



lemma roundingTriangle_boundary_value:
  "scaledBy binary32 (padd binary32 (roundingTriangle ! 1) (roundingTriangle ! 2))
     (toFloat binary32 (1 / 2)) = Point3d (Finite (1 / 2)) (Finite (1 / 2)) (Finite 0)"
  by (simp add: roundingTriangle_def binary32_def round32_eval)






subsection \<open>The normals of a finished pass\<close>

lemma foldE_length:
  assumes "\<And>x s s'. step x s = Inr s' \<Longrightarrow> length s' = length s"
    and "foldE step xs s = Inr s'"
  shows "length s' = length s"
  using assms(2)
proof (induction xs arbitrary: s)
  case Nil
  then show ?case by simp
next
  case (Cons x xs)
  then obtain s1 where s1: "step x s = Inr s1" and r: "foldE step xs s1 = Inr s'"
    by (auto simp: bindE_def split: sum.splits)
  show ?case
    using Cons.IH [OF r] assms(1) [OF s1] by simp
qed

lemma writeAt_length: "writeAt xs i v = Inr ys \<Longrightarrow> length ys = length xs"
  by (auto simp: writeAt_def split: if_splits)

lemma addFaceNormal_length:
  assumes "addFaceNormal A G dv f dn = Inr dn'"
  shows "length dn' = length dn"
proof -
  obtain a x b y c where a: "writeAt dn (v1 f) x = Inr a" and b: "writeAt a (v2 f) y = Inr b"
    and c: "writeAt b (v3 f) c = Inr dn'"
    using assms
    by (auto simp: addFaceNormal_def bindE_def Let_def split: sum.splits)
  show ?thesis
    using writeAt_length [OF a] writeAt_length [OF b] writeAt_length [OF c] by simp
qed

lemma accumulateNormals_length:
  assumes "accumulateNormals A G dv M = Inr acc"
  shows "length acc = length dv"
proof -
  have "length acc = length (replicate (length dv) (origin A))"
    by (rule foldE_length [where step = "addFaceNormal A G dv" and xs = M])
       (rule addFaceNormal_length, assumption, rule assms [unfolded accumulateNormals_def])
  then show ?thesis by simp
qed

lemma loopSubdivision_normals:
  assumes "loopSubdivision A G V F dv dm dn = Inr (V', M', N')"
  shows "\<exists>acc. accumulateNormals A G V' M' = Inr acc \<and> N' = map (normalize_vec3d G) acc"
  using assms
  by (auto simp: loopSubdivision_def recomputeNormals_def bindE_def Let_def split: sum.splits)

subsection \<open>The pass on the single triangle\<close>

lemmas pass_eval = loopSubdivision_def accumulate_def accumulateFace_def accumulateVertex_def
  reposition_def repositionVertex_def recomputeNormals_def accumulateNormals_def
  addFaceNormal_def readAt_def writeAt_def origin_def Let_def

lemma first_loop_exact_triangle:
  "subdivideFaces exactArith triangleVertices triangleMesh
     = Inr (triangleVertices @ [Point3d (1 / 2) 0 0, Point3d (1 / 2) (1 / 2) 0, Point3d 0 (1 / 2) 0],
            [mkFace 0 3 5, mkFace 3 4 5, mkFace 5 4 2, mkFace 3 1 4],
            [(0, 1) \<mapsto> 3, (1, 2) \<mapsto> 4, (0, 2) \<mapsto> 5])"
  by (simp add: subdivideFaces_def subdivideFace_def getNewVertex_def contains_def add_def
      getIndex_def canon_def newVertexPosition_def isBoundaryEdge_def incident_def corners_def
      opposite_def childFaces_def mkFace_def exactArith_def triangleVertices_def triangleMesh_def
      eval_nat_numeral)

lemma accumulators_exact_triangle:
  "accumulateNormals exactArith exactGeometry
     [Point3d (3 / 16) (3 / 16) 0, Point3d (5 / 8) (3 / 16) 0, Point3d (3 / 16) (5 / 8) 0,
      Point3d (1 / 2) 0 0, Point3d (1 / 2) (1 / 2) 0, Point3d 0 (1 / 2) 0]
     [mkFace 0 3 5, mkFace 3 4 5, mkFace 5 4 2, mkFace 3 1 4]
   = Inr [Point3d 0 0 1, Point3d 0 0 1, Point3d 0 0 1,
          Point3d 0 0 3, Point3d 0 0 3, Point3d 0 0 3]"
  by (simp add: pass_eval mkFace_def exactArith_def exactGeometry_def eval_nat_numeral)

lemma accumulate_exact_triangle:
  "accumulate exactArith triangleVertices triangleMesh
     = Inr ([1, 1, 1], [Point3d 1 1 0, Point3d 0 1 0, Point3d 1 0 0])"
  by (simp add: pass_eval mkFace_def exactArith_def triangleVertices_def triangleMesh_def
      eval_nat_numeral)

lemma reposition_exact_triangle:
  "reposition exactArith triangleVertices [1, 1, 1]
     [Point3d 1 1 0, Point3d 0 1 0, Point3d 1 0 0]
     (triangleVertices @ [Point3d (1 / 2) 0 0, Point3d (1 / 2) (1 / 2) 0, Point3d 0 (1 / 2) 0])
   = Inr [Point3d (3 / 16) (3 / 16) 0, Point3d (5 / 8) (3 / 16) 0, Point3d (3 / 16) (5 / 8) 0,
          Point3d (1 / 2) 0 0, Point3d (1 / 2) (1 / 2) 0, Point3d 0 (1 / 2) 0]"
  by (simp add: pass_eval exactArith_def triangleVertices_def upt_rec)

lemma pass_exact_triangle:
  "loopSubdivision exactArith exactGeometry triangleVertices triangleMesh [] [] []
   = Inr ([Point3d (3 / 16) (3 / 16) 0, Point3d (5 / 8) (3 / 16) 0, Point3d (3 / 16) (5 / 8) 0,
           Point3d (1 / 2) 0 0, Point3d (1 / 2) (1 / 2) 0, Point3d 0 (1 / 2) 0],
          [mkFace 0 3 5, mkFace 3 4 5, mkFace 5 4 2, mkFace 3 1 4],
          map (normalize_vec3d exactGeometry)
            [Point3d 0 0 1, Point3d 0 0 1, Point3d 0 0 1,
             Point3d 0 0 3, Point3d 0 0 3, Point3d 0 0 3])"
  by (simp only: loopSubdivision_def recomputeNormals_def Let_def first_loop_exact_triangle
      accumulate_exact_triangle reposition_exact_triangle accumulators_exact_triangle
      bindE_Inr prod.case)

subsection \<open>The pass on a store\<close>

lemma pointVectors_setPoints [simp]:
  "pointVectors (setPoints r ps s) = (pointVectors s)(r := ps)"
  by (simp add: setPoints_def)

lemma faceVectors_setPoints [simp]: "faceVectors (setPoints r ps s) = faceVectors s"
  by (simp add: setPoints_def)

lemma pointVectors_setFaces [simp]: "pointVectors (setFaces r fs s) = pointVectors s"
  by (simp add: setFaces_def)

lemma faceVectors_setFaces [simp]:
  "faceVectors (setFaces r fs s) = (faceVectors s)(r := fs)"
  by (simp add: setFaces_def)

lemma setPoints_twice [simp]: "setPoints r ps (setPoints r qs s) = setPoints r ps s"
  by (simp add: setPoints_def)

lemma setFaces_twice [simp]: "setFaces r fs (setFaces r gs s) = setFaces r fs s"
  by (simp add: setFaces_def)

lemma setFaces_setPoints: "setFaces r fs (setPoints q ps s) = setPoints q ps (setFaces r fs s)"
  by (simp add: setFaces_def setPoints_def)

lemma setPoints_same [simp]: "setPoints r (pointVectors s r) s = s"
  by (simp add: setPoints_def)

lemma setFaces_same [simp]: "setFaces r (faceVectors s r) s = s"
  by (simp add: setFaces_def)

lemma subdivideFaceAt_separate:
  assumes "om \<noteq> dm"
  shows "subdivideFaceAt A om dv dm f (s, E)
    = bindE (subdivideFace A (faceVectors s om) f (pointVectors s dv, faceVectors s dm, E))
        (\<lambda>(V', M', E'). Inr (setPoints dv V' (setFaces dm M' s), E'))"
  using assms
  by (simp add: subdivideFaceAt_def subdivideFace_def bindE_def Let_def setFaces_setPoints
      split: sum.splits prod.splits)

lemma first_loop_separate:
  assumes "om \<noteq> dm"
  shows "foldE (subdivideFaceAt A om dv dm) fs (s, E)
    = bindE (foldE (subdivideFace A (faceVectors s om)) fs (pointVectors s dv, faceVectors s dm, E))
        (\<lambda>(V', M', E'). Inr (setPoints dv V' (setFaces dm M' s), E'))"
proof (induction fs arbitrary: s E)
  case Nil
  show ?case by (simp add: setFaces_setPoints)
next
  case (Cons f fs)
  show ?case
  proof (cases "subdivideFace A (faceVectors s om) f (pointVectors s dv, faceVectors s dm, E)")
    case (Inl e)
    then show ?thesis
      by (simp add: subdivideFaceAt_separate [OF assms])
  next
    case (Inr t)
    obtain V' M' E' where t: "t = (V', M', E')"
      by (cases t) auto
    show ?thesis
      using assms
      by (simp add: subdivideFaceAt_separate [OF assms] Inr t Cons.IH setFaces_setPoints)
  qed
qed

lemma repositionVertexAt_step:
  "repositionVertexAt A ov dv occ tmp i s
    = bindE (repositionVertex A (pointVectors s ov) occ tmp i (pointVectors s dv))
        (\<lambda>V'. Inr (setPoints dv V' s))"
  by (simp add: repositionVertexAt_def)

lemma third_loop_separate:
  assumes "ov \<noteq> dv"
  shows "foldE (repositionVertexAt A ov dv occ tmp) is s
    = bindE (foldE (repositionVertex A (pointVectors s ov) occ tmp) is (pointVectors s dv))
        (\<lambda>V'. Inr (setPoints dv V' s))"
proof (induction "is" arbitrary: s)
  case Nil
  show ?case by simp
next
  case (Cons i "is")
  show ?case
  proof (cases "repositionVertex A (pointVectors s ov) occ tmp i (pointVectors s dv)")
    case (Inl e)
    have "repositionVertexAt A ov dv occ tmp i s = Inl e"
      by (subst repositionVertexAt_step) (simp add: Inl)
    then show ?thesis
      using Inl by simp
  next
    case (Inr V')
    have "repositionVertexAt A ov dv occ tmp i s = Inr (setPoints dv V' s)"
      by (subst repositionVertexAt_step) (simp add: Inr)
    then show ?thesis
      using assms Inr by (simp add: Cons.IH)
  qed
qed

lemma addFaceNormalAt_separate:
  assumes "dv \<noteq> dn"
  shows "addFaceNormalAt A G dv dn f s
    = bindE (addFaceNormal A G (pointVectors s dv) f (pointVectors s dn))
        (\<lambda>N. Inr (setPoints dn N s))"
  using assms
  by (simp add: addFaceNormalAt_def addFaceNormal_def addWeightedNormal_def readAt_def
      writeAt_def Let_def)

lemma fourth_loop_separate:
  assumes "dv \<noteq> dn"
  shows "foldE (addFaceNormalAt A G dv dn) fs s
    = bindE (foldE (addFaceNormal A G (pointVectors s dv)) fs (pointVectors s dn))
        (\<lambda>N. Inr (setPoints dn N s))"
proof (induction fs arbitrary: s)
  case Nil
  show ?case by simp
next
  case (Cons f fs)
  show ?case
  proof (cases "addFaceNormal A G (pointVectors s dv) f (pointVectors s dn)")
    case (Inl e)
    have "addFaceNormalAt A G dv dn f s = Inl e"
      by (subst addFaceNormalAt_separate [OF assms]) (simp add: Inl)
    then show ?thesis
      using Inl by simp
  next
    case (Inr N)
    have "addFaceNormalAt A G dv dn f s = Inr (setPoints dn N s)"
      by (subst addFaceNormalAt_separate [OF assms]) (simp add: Inr)
    then show ?thesis
      using assms Inr by (simp add: Cons.IH)
  qed
qed

lemma loopSubdivisionAt_separate:
  assumes "ov \<noteq> dv" "ov \<noteq> dn" "dv \<noteq> dn" "om \<noteq> dm"
  shows "loopSubdivisionAt A G ov om dv dm dn s
    = bindE (loopSubdivision A G (pointVectors s ov) (faceVectors s om) V0 M0 N0)
        (\<lambda>(V', M', N').
           Inr (s\<lparr>pointVectors := (pointVectors s)(dv := V', dn := N'),
                   faceVectors := (faceVectors s)(dm := M')\<rparr>))"
proof -
  let ?V = "pointVectors s ov" and ?F = "faceVectors s om"
  let ?s1 = "setFaces dm [] (setPoints dv ?V s)"
  have s1: "pointVectors ?s1 ov = ?V" "faceVectors ?s1 om = ?F" "pointVectors ?s1 dv = ?V"
    "faceVectors ?s1 dm = []"
    using assms by simp_all
  show ?thesis
  proof (cases "subdivideFaces A ?V ?F")
    case (Inl e)
    then show ?thesis
      using assms
      by (simp add: loopSubdivisionAt_def loopSubdivision_def Let_def
          first_loop_separate [OF assms(4)] subdivideFaces_def)
  next
    case (Inr t)
    obtain V1 M1 E where t: "t = (V1, M1, E)"
      by (cases t) auto
    let ?s2 = "setPoints dv V1 (setFaces dm M1 ?s1)"
    have l1: "foldE (subdivideFaceAt A om dv dm) ?F (?s1, Map.empty) = Inr (?s2, E)"
      using Inr t assms by (simp add: first_loop_separate [OF assms(4)] subdivideFaces_def)
    have s2: "pointVectors ?s2 ov = ?V" "faceVectors ?s2 om = ?F" "pointVectors ?s2 dv = V1"
      "faceVectors ?s2 dm = M1"
      using assms by simp_all
    show ?thesis
    proof (cases "accumulate A ?V ?F")
      case (Inl e)
      then show ?thesis
        using assms l1 Inr t s1 s2
        by (simp add: loopSubdivisionAt_def loopSubdivision_def Let_def)
    next
      case acc: (Inr u)
      obtain occ tmp where u: "u = (occ, tmp)"
        by (cases u) auto
      show ?thesis
      proof (cases "reposition A ?V occ tmp V1")
        case (Inl e)
        then show ?thesis
          using assms l1 Inr t s1 s2 acc u
          by (simp add: loopSubdivisionAt_def loopSubdivision_def Let_def
              third_loop_separate [OF assms(1)] reposition_def)
      next
        case rep: (Inr V2)
        let ?s3 = "setPoints dv V2 ?s2"
        have l3: "foldE (repositionVertexAt A ov dv occ tmp) [0 ..< length ?V] ?s2 = Inr ?s3"
          using assms rep s2 by (simp add: third_loop_separate [OF assms(1)] reposition_def)
        let ?s4 = "setPoints dn (replicate (length V2) (origin A)) ?s3"
        have s4: "pointVectors ?s4 dv = V2" "faceVectors ?s4 dm = M1"
          "pointVectors ?s4 dn = replicate (length V2) (origin A)"
          using assms by simp_all
        show ?thesis
        proof (cases "accumulateNormals A G V2 M1")
          case (Inl e)
          then show ?thesis
            using assms l1 Inr t s1 s2 acc u rep l3 s4
            by (simp add: loopSubdivisionAt_def loopSubdivision_def Let_def
                fourth_loop_separate [OF assms(3)] accumulateNormals_def recomputeNormals_def)
        next
          case nor: (Inr N)
          have l4: "foldE (addFaceNormalAt A G dv dn) M1 ?s4 = Inr (setPoints dn N ?s4)"
            using assms nor s4 by (simp add: fourth_loop_separate [OF assms(3)] accumulateNormals_def)
          have "loopSubdivisionAt A G ov om dv dm dn s
              = Inr (setPoints dn (map (normalize_vec3d G) N) (setPoints dn N ?s4))"
            using assms l1 s2 acc u l3 s4 l4
            by (simp add: loopSubdivisionAt_def Let_def)
          moreover have "loopSubdivision A G ?V ?F V0 M0 N0
              = Inr (V2, M1, map (normalize_vec3d G) N)"
            using Inr t acc u rep nor
            by (simp add: loopSubdivision_def recomputeNormals_def)
          moreover have "setPoints dn (map (normalize_vec3d G) N) (setPoints dn N ?s4)
              = s\<lparr>pointVectors := (pointVectors s)(dv := V2, dn := map (normalize_vec3d G) N),
                   faceVectors := (faceVectors s)(dm := M1)\<rparr>"
            using assms by (simp add: setPoints_def setFaces_def)
          ultimately show ?thesis
            by simp
        qed
      qed
    qed
  qed
qed

lemma accumulators_sample_triangle:
  "accumulateNormals exactArith (sampleGeometry exactArith)
     [Point3d (3 / 16) (3 / 16) 0, Point3d (5 / 8) (3 / 16) 0, Point3d (3 / 16) (5 / 8) 0,
      Point3d (1 / 2) 0 0, Point3d (1 / 2) (1 / 2) 0, Point3d 0 (1 / 2) 0]
     [mkFace 0 3 5, mkFace 3 4 5, mkFace 5 4 2, mkFace 3 1 4]
   = Inr [Point3d 0 0 1, Point3d 0 0 1, Point3d 0 0 1,
          Point3d 0 0 3, Point3d 0 0 3, Point3d 0 0 3]"
  by (simp add: pass_eval mkFace_def exactArith_def sampleGeometry_def eval_nat_numeral)

lemma pass_sample_triangle:
  "loopSubdivision exactArith (sampleGeometry exactArith) triangleVertices triangleMesh V0 M0 N0
   = Inr ([Point3d (3 / 16) (3 / 16) 0, Point3d (5 / 8) (3 / 16) 0, Point3d (3 / 16) (5 / 8) 0,
           Point3d (1 / 2) 0 0, Point3d (1 / 2) (1 / 2) 0, Point3d 0 (1 / 2) 0],
          [mkFace 0 3 5, mkFace 3 4 5, mkFace 5 4 2, mkFace 3 1 4],
          [Point3d 0 0 1, Point3d 0 0 1, Point3d 0 0 1,
           Point3d 0 0 3, Point3d 0 0 3, Point3d 0 0 3])"
proof -
  have "map (normalize_vec3d (sampleGeometry exactArith))
          [Point3d 0 0 1, Point3d 0 0 1, Point3d 0 0 1,
           Point3d 0 0 3, Point3d 0 0 3, Point3d 0 0 (3 :: real)]
        = [Point3d 0 0 1, Point3d 0 0 1, Point3d 0 0 1,
           Point3d 0 0 3, Point3d 0 0 3, Point3d 0 0 3]"
    by (simp add: sampleGeometry_def)
  then show ?thesis
    by (simp only: loopSubdivision_def recomputeNormals_def Let_def first_loop_exact_triangle
        accumulate_exact_triangle reposition_exact_triangle accumulators_sample_triangle
        bindE_Inr prod.case)
qed

lemma triangleStore_inputs:
  "pointVectors triangleStore 0 = triangleVertices" "faceVectors triangleStore 0 = triangleMesh"
  by (simp_all add: triangleStore_def)

lemma crowdedStore_inputs:
  "pointVectors crowdedStore 5 = triangleVertices" "faceVectors crowdedStore 3 = triangleMesh"
  by (simp_all add: crowdedStore_def)

lemma aliased_run:
  "loopSubdivisionAt exactArith (sampleGeometry exactArith) 0 0 0 1 2 triangleStore
     = Inl AssertionFailed"
  by (simp add: loopSubdivisionAt_def subdivideFaceAt_def getNewVertex_def contains_def add_def
      getIndex_def canon_def newVertexPosition_def isBoundaryEdge_def incident_def corners_def
      opposite_def childFaces_def mkFace_def exactArith_def triangleVertices_def triangleMesh_def
      triangleStore_def setFaces_def setPoints_def accumulate_def accumulateFace_def
      accumulateVertex_def repositionVertexAt_def repositionVertex_def readAt_def writeAt_def
      origin_def Let_def upt_rec eval_nat_numeral)

section \<open>Claims\<close>

text \<open>
  C1. On a well-formed mesh the first loop ends with a registry whose keys are exactly the
  distinct undirected edges of the faces and whose values number them, one to one, by the
  indices that follow the input vertices; resolving a registered edge again, in either
  orientation, returns the registered index and leaves the vertex list and the registry
  as they are; the output vertex list has as many entries as the input plus the number
  of distinct edges. This holds in every arithmetic.
\<close>

theorem edge_dedup_vertex_count:
  assumes "validMesh V F"
  shows "\<exists>V1 M1 E V' M' N'.
           subdivideFaces A V F = Inr (V1, M1, E) \<and>
           dom E = meshEdges F \<and> inj_on E (dom E) \<and>
           ran E = {length V ..< length V + card (meshEdges F)} \<and>
           (\<forall>L Vl a b i. getIndex L (a, b) = Inr i \<longrightarrow>
              getNewVertex A (a, b) Vl F L = Inr (i, Vl, L) \<and>
              getNewVertex A (b, a) Vl F L = Inr (i, Vl, L)) \<and>
           loopSubdivision A G V F dv dm dn = Inr (V', M', N') \<and>
           length V' = length V + card (meshEdges F)"
proof -
  obtain V1 E acc where s: "subdivideFaces A V F = Inr (V1, concat (map (subdivided E) F), E)"
    and reg: "registry A V F V1 E" and d: "dom E = meshEdges F"
    and out: "loopSubdivision A G V F dv dm dn
       = Inr (map (newPosition A V F) [0 ..< length V] @ drop (length V) V1,
              concat (map (subdivided E) F), map (normalize_vec3d G) acc)"
    and an: "accumulateNormals A G
       (map (newPosition A V F) [0 ..< length V] @ drop (length V) V1)
       (concat (map (subdivided E) F)) = Inr acc"
    and ln: "length acc = length V1"
    by (rule pass_result [OF assms])
  have len: "length V \<le> length V1" and c: "card (dom E) = length V1 - length V"
    and r: "ran E = {length V ..< length V1}"
    using reg by (simp_all add: registry_def)
  have l1: "length V1 = length V + card (meshEdges F)"
    using len c d by simp
  have l2: "length (map (newPosition A V F) [0 ..< length V] @ drop (length V) V1)
      = length V + card (meshEdges F)"
    using len l1 by simp
  have g: "\<forall>L Vl a b i. getIndex L (a, b) = Inr i \<longrightarrow>
              getNewVertex A (a, b) Vl F L = Inr (i, Vl, L) \<and>
              getNewVertex A (b, a) Vl F L = Inr (i, Vl, L)"
    using getNewVertex_registered by blast
  have r': "ran E = {length V ..< length V + card (meshEdges F)}"
    using r l1 by simp
  show ?thesis
    using s d registry_inj [OF reg] r' g out l2 by (intro exI conjI)
qed

theorem edge_dedup_vertex_count_witness:
  "validMesh quadVertices quadMesh \<and>
   length quadVertices + card (meshEdges quadMesh) = 9 \<and>
   (\<exists>V1 M1 E V' M' N'.
      subdivideFaces exactArith quadVertices quadMesh = Inr (V1, M1, E) \<and>
      dom E = meshEdges quadMesh \<and> inj_on E (dom E) \<and>
      ran E = {length quadVertices ..< length quadVertices + card (meshEdges quadMesh)} \<and>
      (\<forall>L Vl a b i. getIndex L (a, b) = Inr i \<longrightarrow>
         getNewVertex exactArith (a, b) Vl quadMesh L = Inr (i, Vl, L) \<and>
         getNewVertex exactArith (b, a) Vl quadMesh L = Inr (i, Vl, L)) \<and>
      loopSubdivision exactArith (sampleGeometry exactArith) quadVertices quadMesh [] [] []
        = Inr (V', M', N') \<and>
      length V' = length quadVertices + card (meshEdges quadMesh))"
proof (intro conjI)
  show "validMesh quadVertices quadMesh"
    by (rule validMesh_quad)
  show "length quadVertices + card (meshEdges quadMesh) = 9"
    by (simp add: card_meshEdges_quad quadVertices_def)
  show "\<exists>V1 M1 E V' M' N'.
      subdivideFaces exactArith quadVertices quadMesh = Inr (V1, M1, E) \<and>
      dom E = meshEdges quadMesh \<and> inj_on E (dom E) \<and>
      ran E = {length quadVertices ..< length quadVertices + card (meshEdges quadMesh)} \<and>
      (\<forall>L Vl a b i. getIndex L (a, b) = Inr i \<longrightarrow>
         getNewVertex exactArith (a, b) Vl quadMesh L = Inr (i, Vl, L) \<and>
         getNewVertex exactArith (b, a) Vl quadMesh L = Inr (i, Vl, L)) \<and>
      loopSubdivision exactArith (sampleGeometry exactArith) quadVertices quadMesh [] [] []
        = Inr (V', M', N') \<and>
      length V' = length quadVertices + card (meshEdges quadMesh)"
    by (rule edge_dedup_vertex_count [OF validMesh_quad])
qed

text \<open>
  C2. On a well-formed mesh the pass returns, and its face list has four faces for each
  input face, in the order of the input: for the face \<open>(v1, v2, v3)\<close> at position \<open>k\<close>, with
  \<open>a\<close>, \<open>b\<close>, \<open>c\<close> the indices the registry holds for the edges \<open>(v1, v2)\<close>, \<open>(v2, v3)\<close>,
  \<open>(v3, v1)\<close>, the faces at positions \<open>4k\<close> to \<open>4k + 3\<close> are \<open>(v1, a, c)\<close>, \<open>(a, b, c)\<close>,
  \<open>(c, b, v3)\<close>, \<open>(a, v2, b)\<close>. The output face count is four times the input face count.
  This holds in every arithmetic.
\<close>

theorem child_faces_order:
  assumes "validMesh V F"
  shows "\<exists>V1 E V' M' N'.
           subdivideFaces A V F = Inr (V1, M', E) \<and>
           loopSubdivision A G V F dv dm dn = Inr (V', M', N') \<and>
           length M' = 4 * length F \<and>
           (\<forall>k < length F. \<exists>a b c.
              getIndex E (v1 (F ! k), v2 (F ! k)) = Inr a \<and>
              getIndex E (v2 (F ! k), v3 (F ! k)) = Inr b \<and>
              getIndex E (v3 (F ! k), v1 (F ! k)) = Inr c \<and>
              take 4 (drop (4 * k) M') =
                [mkFace (v1 (F ! k)) a c, mkFace a b c, mkFace c b (v3 (F ! k)),
                 mkFace a (v2 (F ! k)) b])"
proof -
  obtain V1 E acc where s: "subdivideFaces A V F = Inr (V1, concat (map (subdivided E) F), E)"
    and reg: "registry A V F V1 E" and d: "dom E = meshEdges F"
    and out: "loopSubdivision A G V F dv dm dn
       = Inr (map (newPosition A V F) [0 ..< length V] @ drop (length V) V1,
              concat (map (subdivided E) F), map (normalize_vec3d G) acc)"
    and an: "accumulateNormals A G
       (map (newPosition A V F) [0 ..< length V] @ drop (length V) V1)
       (concat (map (subdivided E) F)) = Inr acc"
    and ln: "length acc = length V1"
    by (rule pass_result [OF assms])
  let ?M = "concat (map (subdivided E) F)"
  have four: "\<forall>f \<in> set F. length (subdivided E f) = 4"
    by (simp add: subdivided_length)
  have len: "length ?M = 4 * length F"
    by (rule length_concat_block [OF four])
  have faces: "\<exists>a b c.
      getIndex E (v1 (F ! k), v2 (F ! k)) = Inr a \<and>
      getIndex E (v2 (F ! k), v3 (F ! k)) = Inr b \<and>
      getIndex E (v3 (F ! k), v1 (F ! k)) = Inr c \<and>
      take 4 (drop (4 * k) ?M) =
        [mkFace (v1 (F ! k)) a c, mkFace a b c, mkFace c b (v3 (F ! k)),
         mkFace a (v2 (F ! k)) b]" if k: "k < length F" for k
  proof -
    let ?f = "F ! k"
    have f: "?f \<in> set F" using k by simp
    have e: "canon e \<in> dom E" if "e \<in> set (faceEdges ?f)" for e
      using faceEdges_in_mesh [OF f that] d by simp
    have g: "getIndex E (v1 ?f, v2 ?f) = Inr (midpointIndex E (v1 ?f, v2 ?f))"
      "getIndex E (v2 ?f, v3 ?f) = Inr (midpointIndex E (v2 ?f, v3 ?f))"
      "getIndex E (v3 ?f, v1 ?f) = Inr (midpointIndex E (v3 ?f, v1 ?f))"
      by (rule getIndex_dom, rule e, simp add: faceEdges_def)+
    have "take 4 (drop (4 * k) ?M) = subdivided E ?f"
      by (rule concat_block [OF four k])
    then show ?thesis
      using g by (simp add: subdivided_def childFaces_def)
  qed
  have "subdivideFaces A V F = Inr (V1, ?M, E) \<and>
        loopSubdivision A G V F dv dm dn
          = Inr (map (newPosition A V F) [0 ..< length V] @ drop (length V) V1, ?M,
                 map (normalize_vec3d G) acc) \<and>
        length ?M = 4 * length F \<and>
        (\<forall>k < length F. \<exists>a b c.
           getIndex E (v1 (F ! k), v2 (F ! k)) = Inr a \<and>
           getIndex E (v2 (F ! k), v3 (F ! k)) = Inr b \<and>
           getIndex E (v3 (F ! k), v1 (F ! k)) = Inr c \<and>
           take 4 (drop (4 * k) ?M) =
             [mkFace (v1 (F ! k)) a c, mkFace a b c, mkFace c b (v3 (F ! k)),
              mkFace a (v2 (F ! k)) b])"
    using s out len faces by simp
  then show ?thesis
    by blast
qed

theorem child_faces_order_witness:
  "validMesh triangleVertices triangleMesh \<and>
   (\<exists>V1 E V' M' N'.
      subdivideFaces exactArith triangleVertices triangleMesh = Inr (V1, M', E) \<and>
      loopSubdivision exactArith (sampleGeometry exactArith) triangleVertices triangleMesh [] [] []
        = Inr (V', M', N') \<and>
      length M' = 4 * length triangleMesh \<and>
      (\<forall>k < length triangleMesh. \<exists>a b c.
         getIndex E (v1 (triangleMesh ! k), v2 (triangleMesh ! k)) = Inr a \<and>
         getIndex E (v2 (triangleMesh ! k), v3 (triangleMesh ! k)) = Inr b \<and>
         getIndex E (v3 (triangleMesh ! k), v1 (triangleMesh ! k)) = Inr c \<and>
         take 4 (drop (4 * k) M') =
           [mkFace (v1 (triangleMesh ! k)) a c, mkFace a b c, mkFace c b (v3 (triangleMesh ! k)),
            mkFace a (v2 (triangleMesh ! k)) b]))"
  by (rule conjI [OF validMesh_triangle child_faces_order [OF validMesh_triangle]])




text \<open>
  C4, as stated, fails in binary32. In the single triangle with \<open>V 1 = (1, 0, 0)\<close> and
  \<open>V 2 = (2^-24, 1, 0)\<close> the edge \<open>1-2\<close> is a boundary edge and its midpoint is the output
  vertex \<open>4\<close>. Line 246 rounds the sum \<open>1 + 2^-24\<close> to \<open>1\<close> and returns \<open>(1/2, 1/2, 0)\<close>, while
  the exact average of the two endpoints is \<open>(1/2 + 2^-25, 1/2, 0)\<close>.
\<close>

theorem boundary_midpoint_rounded:
  "validMesh roundingTriangle triangleMesh \<and>
   filter (incident (1, 2)) triangleMesh = [mkFace 0 1 2] \<and>
   registeredIndex (subdivideFaces binary32 roundingTriangle triangleMesh) (1, 2) = Inr 4 \<and>
   outputVertices
       (loopSubdivision binary32 (sampleGeometry binary32) roundingTriangle triangleMesh [] [] []) ! 4
     = Point3d (Finite (1 / 2)) (Finite (1 / 2)) (Finite 0) \<and>
   specBoundaryMidpoint (realPoint (roundingTriangle ! 1)) (realPoint (roundingTriangle ! 2))
     = Point3d (1 / 2 + 1 / 2 ^ 25) (1 / 2) 0 \<and>
   realPoint (outputVertices
       (loopSubdivision binary32 (sampleGeometry binary32) roundingTriangle triangleMesh [] [] []) ! 4)
     \<noteq> specBoundaryMidpoint (realPoint (roundingTriangle ! 1)) (realPoint (roundingTriangle ! 2))"
proof -
  have ix: "registeredIndex (subdivideFaces binary32 roundingTriangle triangleMesh) (1, 2) = Inr 4"
    by (simp add: first_loop_triangle registeredIndex_def getIndex_def canon_def)
  have "outputVertices
      (loopSubdivision binary32 (sampleGeometry binary32) roundingTriangle triangleMesh [] [] []) ! 4
    = (roundingTriangle @
              [Point3d (Finite (1 / 2)) (Finite 0) (Finite 0),
               Point3d (Finite (1 / 2)) (Finite (1 / 2)) (Finite 0),
               Point3d (Finite (1 / 2 ^ 25)) (Finite (1 / 2)) (Finite 0)]) ! 4"
    by (rule output_midpoint [OF validMesh_roundingTriangle first_loop_triangle])
       (simp_all add: roundingTriangle_def)
  then have out: "outputVertices
      (loopSubdivision binary32 (sampleGeometry binary32) roundingTriangle triangleMesh [] [] []) ! 4
    = Point3d (Finite (1 / 2)) (Finite (1 / 2)) (Finite 0)"
    by (simp add: roundingTriangle_def)
  have spec: "specBoundaryMidpoint (realPoint (roundingTriangle ! 1))
       (realPoint (roundingTriangle ! 2)) = Point3d (1 / 2 + 1 / 2 ^ 25) (1 / 2) 0"
    by (simp add: roundingTriangle_def)
  show ?thesis
    unfolding out spec using validMesh_roundingTriangle triangle_boundary ix by simp
qed

text \<open>
  C4, amended. On a well-formed mesh, an edge \<open>(a, b)\<close> with exactly one incident face has a
  midpoint vertex in the output, at the index the registry holds for it. Its position is
  the value of the expression of line 246 in the arithmetic of the pass: the rounded sum of
  the input positions of the two endpoints, times \<open>0.5\<close>. It is the exact average only where
  the sum is not rounded. The addition of the arithmetic is taken to be commutative, as
  it is in IEEE 754.
\<close>

theorem boundary_midpoint_position:
  assumes "validMesh V F" "commutativeAdd A" "a \<noteq> b" "filter (incident (a, b)) F = [f]"
  shows "\<exists>V1 M1 E i V' M' N'.
           subdivideFaces A V F = Inr (V1, M1, E) \<and> getIndex E (a, b) = Inr i \<and>
           loopSubdivision A G V F dv dm dn = Inr (V', M', N') \<and>
           length V \<le> i \<and> i < length V' \<and>
           V' ! i = scaledBy A (padd A (V ! a) (V ! b)) (toFloat A (1 / 2))"
proof -
  from assms(1) have valid: "validIndices V F" and dist: "distinctCorners F"
    by (simp_all add: validMesh_def)
  obtain V1 E acc where s: "subdivideFaces A V F = Inr (V1, concat (map (subdivided E) F), E)"
    and reg: "registry A V F V1 E" and d: "dom E = meshEdges F"
    and out: "loopSubdivision A G V F dv dm dn
       = Inr (map (newPosition A V F) [0 ..< length V] @ drop (length V) V1,
              concat (map (subdivided E) F), map (normalize_vec3d G) acc)"
    and an: "accumulateNormals A G
       (map (newPosition A V F) [0 ..< length V] @ drop (length V) V1)
       (concat (map (subdivided E) F)) = Inr acc"
    and ln: "length acc = length V1"
    by (rule pass_result [OF assms(1)])
  let ?V' = "map (newPosition A V F) [0 ..< length V] @ drop (length V) V1"
  let ?p = "scaledBy A (padd A (V ! a) (V ! b)) (toFloat A (1 / 2))"
  have f: "f \<in> set F \<and> incident (a, b) f"
    by (rule filter_members [OF assms(4)]) simp
  have f1: "f \<in> set F" "incident (a, b) f"
    using f by simp_all
  have "canon (a, b) \<in> meshEdges F"
    by (rule incident_edge_in_mesh [OF dist f1 assms(3)])
  then have "canon (a, b) \<in> dom E"
    using d by simp
  then have ix: "getIndex E (a, b) = Inr (midpointIndex E (a, b))"
    by (rule getIndex_dom)
  let ?i = "midpointIndex E (a, b)"
  have pos: "newVertexPosition A (a, b) V F = Inr (V1 ! ?i)" and lo: "length V \<le> ?i"
    and hi: "?i < length V1"
    using registered_position [OF assms(2) reg ix] by simp_all
  have "V1 ! ?i = ?p"
    using pos newVertexPosition_boundary [OF valid assms(4), of A] by simp
  then have val: "?V' ! ?i = ?p"
    using kept_tail [OF lo hi] by simp
  have len: "?i < length ?V'"
    using hi lo by simp
  have "subdivideFaces A V F = Inr (V1, concat (map (subdivided E) F), E) \<and>
        getIndex E (a, b) = Inr ?i \<and>
        loopSubdivision A G V F dv dm dn
          = Inr (?V', concat (map (subdivided E) F), map (normalize_vec3d G) acc) \<and>
        length V \<le> ?i \<and> ?i < length ?V' \<and>
        ?V' ! ?i = ?p"
    using s ix out lo len val by (intro conjI)
  then show ?thesis
    by blast
qed

theorem boundary_midpoint_position_witness:
  "validMesh roundingTriangle triangleMesh \<and> commutativeAdd binary32 \<and> (1 :: nat) \<noteq> 2 \<and>
   filter (incident (1, 2)) triangleMesh = [mkFace 0 1 2] \<and>
   (\<exists>V1 M1 E i V' M' N'.
      subdivideFaces binary32 roundingTriangle triangleMesh = Inr (V1, M1, E) \<and>
      getIndex E (1, 2) = Inr i \<and>
      loopSubdivision binary32 (sampleGeometry binary32) roundingTriangle triangleMesh [] [] []
        = Inr (V', M', N') \<and>
      V' ! i = Point3d (Finite (1 / 2)) (Finite (1 / 2)) (Finite 0))"
proof -
  have ne: "(1 :: nat) \<noteq> 2" by simp
  obtain V1 M1 E i V' M' N' where
    "subdivideFaces binary32 roundingTriangle triangleMesh = Inr (V1, M1, E)"
    "getIndex E (1, 2) = Inr i"
    "loopSubdivision binary32 (sampleGeometry binary32) roundingTriangle triangleMesh [] [] []
       = Inr (V', M', N')"
    "V' ! i = scaledBy binary32 (padd binary32 (roundingTriangle ! 1) (roundingTriangle ! 2))
       (toFloat binary32 (1 / 2))"
    using boundary_midpoint_position [OF validMesh_roundingTriangle commutativeAdd_binary32 ne
        triangle_boundary, of "sampleGeometry binary32" "[]" "[]" "[]"] by blast
  then show ?thesis
    using validMesh_roundingTriangle commutativeAdd_binary32 ne triangle_boundary
      roundingTriangle_boundary_value by auto
qed




text \<open>
  C6. Whenever the pass returns, there are as many output normals as output vertices, and
  the normal at an index is \<^verbatim>\<open>normalize\<close> applied to the vector that the fourth loop
  accumulated at this index from the output vertices and faces. If \<^verbatim>\<open>normalize\<close> keeps its
  contract of spec 4.6 (a vector whose length is not zero is brought to unit length within
  the tolerance \<open>tol\<close>), every output normal whose accumulated vector has a length that is
  not zero has unit length within \<open>tol\<close>. On a well-formed mesh the pass does return. The
  length of a vector is measured through \<open>val\<close>, the real number a floating-point value
  stands for.
\<close>

theorem normals_unit_length:
  assumes "normalizesWithin val tol G"
  shows "(validMesh V F \<longrightarrow> (\<exists>out. loopSubdivision A G V F dv dm dn = Inr out)) \<and>
         (\<forall>V' M' N'. loopSubdivision A G V F dv dm dn = Inr (V', M', N') \<longrightarrow>
            length N' = length V' \<and>
            (\<exists>acc. accumulateNormals A G V' M' = Inr acc \<and> length acc = length N' \<and>
               (\<forall>i < length N'.
                  N' ! i = normalize_vec3d G (acc ! i) \<and>
                  (vlength val (acc ! i) \<noteq> 0 \<longrightarrow> \<bar>vlength val (N' ! i) - 1\<bar> \<le> tol))))"
proof (intro conjI allI impI)
  assume v: "validMesh V F"
  obtain V1 E acc where s: "subdivideFaces A V F = Inr (V1, concat (map (subdivided E) F), E)"
    and reg: "registry A V F V1 E" and d: "dom E = meshEdges F"
    and out: "loopSubdivision A G V F dv dm dn
       = Inr (map (newPosition A V F) [0 ..< length V] @ drop (length V) V1,
              concat (map (subdivided E) F), map (normalize_vec3d G) acc)"
    and an: "accumulateNormals A G
       (map (newPosition A V F) [0 ..< length V] @ drop (length V) V1)
       (concat (map (subdivided E) F)) = Inr acc"
    and ln: "length acc = length V1"
    by (rule pass_result [OF v])
  show "\<exists>out. loopSubdivision A G V F dv dm dn = Inr out"
    using out by blast
next
  fix V' M' N'
  assume r: "loopSubdivision A G V F dv dm dn = Inr (V', M', N')"
  obtain acc where an: "accumulateNormals A G V' M' = Inr acc"
    and n: "N' = map (normalize_vec3d G) acc"
    using loopSubdivision_normals [OF r] by blast
  have l: "length acc = length V'"
    by (rule accumulateNormals_length [OF an])
  show "length N' = length V'"
    using n l by simp
  have u: "\<bar>vlength val (normalize_vec3d G v) - 1\<bar> \<le> tol" if "vlength val v \<noteq> 0" for v
    using assms that by (simp add: normalizesWithin_def)
  have "\<forall>i < length N'.
          N' ! i = normalize_vec3d G (acc ! i) \<and>
          (vlength val (acc ! i) \<noteq> 0 \<longrightarrow> \<bar>vlength val (N' ! i) - 1\<bar> \<le> tol)"
    using n u by simp
  then show "\<exists>acc. accumulateNormals A G V' M' = Inr acc \<and> length acc = length N' \<and>
               (\<forall>i < length N'.
                  N' ! i = normalize_vec3d G (acc ! i) \<and>
                  (vlength val (acc ! i) \<noteq> 0 \<longrightarrow> \<bar>vlength val (N' ! i) - 1\<bar> \<le> tol))"
    using an n by (intro exI [of _ acc]) simp
qed

theorem normals_unit_length_witness:
  "normalizesWithin (\<lambda>x. x) (1 / 100000) exactGeometry \<and>
   validMesh triangleVertices triangleMesh \<and>
   (\<exists>V' M' N' acc.
      loopSubdivision exactArith exactGeometry triangleVertices triangleMesh [] [] []
        = Inr (V', M', N') \<and>
      accumulateNormals exactArith exactGeometry V' M' = Inr acc \<and>
      length N' = length V' \<and> length N' = 6 \<and>
      acc ! 3 = Point3d 0 0 3 \<and> vlength (\<lambda>x. x) (acc ! 3) \<noteq> 0 \<and>
      \<bar>vlength (\<lambda>x. x) (N' ! 3) - 1\<bar> \<le> 1 / 100000)"
proof -
  let ?V = "[Point3d (3 / 16) (3 / 16) 0, Point3d (5 / 8) (3 / 16) 0, Point3d (3 / 16) (5 / 8) 0,
           Point3d (1 / 2) 0 0, Point3d (1 / 2) (1 / 2) 0, Point3d 0 (1 / 2) (0 :: real)]"
  let ?M = "[mkFace 0 3 5, mkFace 3 4 5, mkFace 5 4 2, mkFace 3 1 4]"
  let ?acc = "[Point3d 0 0 1, Point3d 0 0 1, Point3d 0 0 1,
             Point3d 0 0 3, Point3d 0 0 3, Point3d 0 0 (3 :: real)]"
  let ?N = "map (normalize_vec3d exactGeometry) ?acc"
  have n: "normalizesWithin (\<lambda>x. x) (1 / 100000) exactGeometry"
    by (rule exactGeometry_normalizes) simp
  have nz: "vlength (\<lambda>x. x) (?acc ! 3) \<noteq> 0"
    by (simp add: vlength_zero)
  obtain acc where a: "accumulateNormals exactArith exactGeometry ?V ?M = Inr acc"
    and u: "\<forall>i < length ?N. ?N ! i = normalize_vec3d exactGeometry (acc ! i) \<and>
          (vlength (\<lambda>x. x) (acc ! i) \<noteq> 0 \<longrightarrow> \<bar>vlength (\<lambda>x. x) (?N ! i) - 1\<bar> \<le> 1 / 100000)"
    using normals_unit_length [OF n, of triangleVertices triangleMesh exactArith "[]" "[]" "[]"]
      pass_exact_triangle by blast
  have acc: "acc = ?acc"
    using a accumulators_exact_triangle by simp
  have "(3 :: nat) < length ?N"
    by simp
  then have "vlength (\<lambda>x. x) (acc ! 3) \<noteq> 0
      \<longrightarrow> \<bar>vlength (\<lambda>x. x) (?N ! 3) - 1\<bar> \<le> 1 / 100000"
    using u by blast
  then have "\<bar>vlength (\<lambda>x. x) (?N ! 3) - 1\<bar> \<le> 1 / 100000"
    using nz unfolding acc by blast
  then show ?thesis
    using n validMesh_triangle pass_exact_triangle accumulators_exact_triangle nz
    by (intro conjI exI [of _ ?V] exI [of _ ?M] exI [of _ ?N] exI [of _ ?acc]) simp_all
qed

text \<open>
  C7, as stated, fails: a face that names a vertex index beyond the vertex list is not
  rejected by an assertion or an explicit error. With one vertex and the face \<open>(0, 1, 2)\<close>
  the pass reaches an unchecked out-of-range read of the vertex list in \<^verbatim>\<open>getNewVertex\<close>
  (line 246), for which C++ defines no behaviour.
\<close>

theorem invalid_index_unchecked:
  "\<not> validIndices danglingVertices triangleMesh \<and>
   loopSubdivision exactArith (sampleGeometry exactArith) danglingVertices triangleMesh [] [] []
     = Inl UndefinedBehaviour"
  by (simp add: validIndices_def danglingVertices_def triangleMesh_def mkFace_def
      loopSubdivision_def subdivideFaces_def subdivideFace_def getNewVertex_def contains_def
      add_def canon_def newVertexPosition_def isBoundaryEdge_def incident_def corners_def)

text \<open>
  C7, amended. When every vertex index of every face is valid: if some edge of a face has
  an incidence count outside \<open>{1, 2}\<close>, the pass stops with the error of the boundary
  finder, without an output; otherwise, if some vertex is a corner of no face, it stops at
  the assertion of line 134 (asserts enabled), without an output; otherwise it returns its
  output and raises no error. An invalid vertex index is not part of this guarantee.
\<close>

theorem precondition_failures:
  assumes "validIndices V F"
  shows "(\<not> manifold F \<longrightarrow> loopSubdivision A G V F dv dm dn = Inl PreconditionViolated) \<and>
         (manifold F \<and> \<not> allReferenced V F \<longrightarrow>
            loopSubdivision A G V F dv dm dn = Inl AssertionFailed) \<and>
         (manifold F \<and> allReferenced V F \<longrightarrow>
            (\<exists>out. loopSubdivision A G V F dv dm dn = Inr out))"
proof (intro conjI impI)
  assume "\<not> manifold F"
  then show "loopSubdivision A G V F dv dm dn = Inl PreconditionViolated"
    by (rule loopSubdivision_unmanifold [OF assms])
next
  assume m: "manifold F \<and> \<not> allReferenced V F"
  then have man: "manifold F" by simp
  show "loopSubdivision A G V F dv dm dn = Inl AssertionFailed"
    using loopSubdivision_run [OF assms man, of A G dv dm dn] m by auto
next
  assume m: "manifold F \<and> allReferenced V F"
  then have man: "manifold F" by simp
  show "\<exists>out. loopSubdivision A G V F dv dm dn = Inr out"
    using loopSubdivision_run [OF assms man, of A G dv dm dn] m by auto
qed

theorem precondition_failures_witness:
  "validIndices bookVertices bookMesh \<and> \<not> manifold bookMesh \<and>
   loopSubdivision exactArith (sampleGeometry exactArith) bookVertices bookMesh [] [] []
     = Inl PreconditionViolated \<and>
   validIndices isolatedVertices triangleMesh \<and> manifold triangleMesh \<and>
   \<not> allReferenced isolatedVertices triangleMesh \<and>
   loopSubdivision exactArith (sampleGeometry exactArith) isolatedVertices triangleMesh [] [] []
     = Inl AssertionFailed \<and>
   validIndices triangleVertices triangleMesh \<and> allReferenced triangleVertices triangleMesh \<and>
   (\<exists>out. loopSubdivision exactArith (sampleGeometry exactArith) triangleVertices triangleMesh
             [] [] [] = Inr out)"
proof -
  have t: "validIndices triangleVertices triangleMesh" "allReferenced triangleVertices triangleMesh"
    using validMesh_triangle by (simp_all add: validMesh_def)
  show ?thesis
    using precondition_failures [OF validIndices_book,
        of "exactArith" "sampleGeometry exactArith" "[]" "[]" "[]"]
      precondition_failures [OF validIndices_isolated,
        of "exactArith" "sampleGeometry exactArith" "[]" "[]" "[]"]
      precondition_failures [OF t(1), of "exactArith" "sampleGeometry exactArith" "[]" "[]" "[]"]
      validIndices_book book_unmanifold validIndices_isolated manifold_triangle
      isolated_unreferenced t
    by simp
qed

text \<open>
  C8, as stated, fails: two invocations on the same valid vertices and faces need not
  produce the same outputs. The parameters are references. Called on the single triangle
  with \<^verbatim>\<open>destVert\<close> bound to a vector of its own, the pass returns six vertices, four faces
  and six normals; called with \<^verbatim>\<open>destVert\<close> bound to the vector that is also \<^verbatim>\<open>origVert\<close>,
  the first loop appends the midpoints to the input vertices, the accumulators of line 94
  get an entry for each of them, and the assertion of line 134 fires at the first midpoint.
\<close>

theorem aliased_call_aborts:
  "validMesh (pointVectors triangleStore 0) (faceVectors triangleStore 0) \<and>
   outputsAt 1 1 2
     (loopSubdivisionAt exactArith (sampleGeometry exactArith) 0 0 1 1 2 triangleStore)
     = Inr ([Point3d (3 / 16) (3 / 16) 0, Point3d (5 / 8) (3 / 16) 0, Point3d (3 / 16) (5 / 8) 0,
             Point3d (1 / 2) 0 0, Point3d (1 / 2) (1 / 2) 0, Point3d 0 (1 / 2) 0],
            [mkFace 0 3 5, mkFace 3 4 5, mkFace 5 4 2, mkFace 3 1 4],
            [Point3d 0 0 1, Point3d 0 0 1, Point3d 0 0 1,
             Point3d 0 0 3, Point3d 0 0 3, Point3d 0 0 3]) \<and>
   outputsAt 0 1 2
     (loopSubdivisionAt exactArith (sampleGeometry exactArith) 0 0 0 1 2 triangleStore)
     = Inl AssertionFailed"
proof (intro conjI)
  show "validMesh (pointVectors triangleStore 0) (faceVectors triangleStore 0)"
    by (simp add: triangleStore_inputs validMesh_triangle)
  have "loopSubdivisionAt exactArith (sampleGeometry exactArith) 0 0 1 1 2 triangleStore
    = bindE (loopSubdivision exactArith (sampleGeometry exactArith)
               (pointVectors triangleStore 0) (faceVectors triangleStore 0) [] [] [])
        (\<lambda>(V', M', N').
           Inr (triangleStore\<lparr>pointVectors := (pointVectors triangleStore)(1 := V', 2 := N'),
                   faceVectors := (faceVectors triangleStore)(1 := M')\<rparr>))"
    by (rule loopSubdivisionAt_separate) simp_all
  then show "outputsAt 1 1 2
     (loopSubdivisionAt exactArith (sampleGeometry exactArith) 0 0 1 1 2 triangleStore)
     = Inr ([Point3d (3 / 16) (3 / 16) 0, Point3d (5 / 8) (3 / 16) 0, Point3d (3 / 16) (5 / 8) 0,
             Point3d (1 / 2) 0 0, Point3d (1 / 2) (1 / 2) 0, Point3d 0 (1 / 2) 0],
            [mkFace 0 3 5, mkFace 3 4 5, mkFace 5 4 2, mkFace 3 1 4],
            [Point3d 0 0 1, Point3d 0 0 1, Point3d 0 0 1,
             Point3d 0 0 3, Point3d 0 0 3, Point3d 0 0 3])"
    by (simp add: triangleStore_inputs pass_sample_triangle outputsAt_def)
  have "loopSubdivisionAt exactArith (sampleGeometry exactArith) 0 0 0 1 2 triangleStore
    = Inl AssertionFailed"
    by (rule aliased_run)
  then show "outputsAt 0 1 2
     (loopSubdivisionAt exactArith (sampleGeometry exactArith) 0 0 0 1 2 triangleStore)
     = Inl AssertionFailed"
    by (simp add: outputsAt_def)
qed

text \<open>
  C8, amended. Let the three output parameters be bound to vectors that differ from the
  two input vectors and from each other. Then on a well-formed mesh the pass returns, and
  the vectors it leaves in the output parameters depend on the input vertices and faces
  only: a second invocation on a store with the same input vertices and faces, whatever
  else the store holds and wherever the five vectors lie in it, leaves the same vertices,
  faces and normals. Every vector of the store other than the three output vectors is
  left as it was, the two input vectors among them.
\<close>

theorem pass_reads_inputs_writes_outputs:
  assumes "validMesh (pointVectors s ov) (faceVectors s om)"
    and "ov \<noteq> dv" "ov \<noteq> dn" "dv \<noteq> dn" "om \<noteq> dm"
    and "ov' \<noteq> dv'" "ov' \<noteq> dn'" "dv' \<noteq> dn'" "om' \<noteq> dm'"
    and "pointVectors t ov' = pointVectors s ov" "faceVectors t om' = faceVectors s om"
  shows "\<exists>V' M' N'.
           loopSubdivision A G (pointVectors s ov) (faceVectors s om) [] [] []
             = Inr (V', M', N') \<and>
           loopSubdivisionAt A G ov om dv dm dn s
             = Inr (s\<lparr>pointVectors := (pointVectors s)(dv := V', dn := N'),
                     faceVectors := (faceVectors s)(dm := M')\<rparr>) \<and>
           loopSubdivisionAt A G ov' om' dv' dm' dn' t
             = Inr (t\<lparr>pointVectors := (pointVectors t)(dv' := V', dn' := N'),
                     faceVectors := (faceVectors t)(dm' := M')\<rparr>)"
proof -
  let ?V = "pointVectors s ov" and ?F = "faceVectors s om"
  obtain V1 E acc where s: "subdivideFaces A ?V ?F = Inr (V1, concat (map (subdivided E) ?F), E)"
    and reg: "registry A ?V ?F V1 E" and d: "dom E = meshEdges ?F"
    and out: "loopSubdivision A G ?V ?F [] [] []
       = Inr (map (newPosition A ?V ?F) [0 ..< length ?V] @ drop (length ?V) V1,
              concat (map (subdivided E) ?F), map (normalize_vec3d G) acc)"
    and an: "accumulateNormals A G
       (map (newPosition A ?V ?F) [0 ..< length ?V] @ drop (length ?V) V1)
       (concat (map (subdivided E) ?F)) = Inr acc"
    and ln: "length acc = length V1"
    by (rule pass_result [OF assms(1)])
  have a: "loopSubdivisionAt A G ov om dv dm dn s
    = bindE (loopSubdivision A G ?V ?F [] [] [])
        (\<lambda>(V', M', N').
           Inr (s\<lparr>pointVectors := (pointVectors s)(dv := V', dn := N'),
                   faceVectors := (faceVectors s)(dm := M')\<rparr>))"
    by (rule loopSubdivisionAt_separate [OF assms(2-5)])
  have b: "loopSubdivisionAt A G ov' om' dv' dm' dn' t
    = bindE (loopSubdivision A G (pointVectors t ov') (faceVectors t om') [] [] [])
        (\<lambda>(V', M', N').
           Inr (t\<lparr>pointVectors := (pointVectors t)(dv' := V', dn' := N'),
                   faceVectors := (faceVectors t)(dm' := M')\<rparr>))"
    by (rule loopSubdivisionAt_separate [OF assms(6-9)])
  show ?thesis
    using out by (simp add: a b assms(10,11))
qed

theorem pass_reads_inputs_writes_outputs_witness:
  "validMesh (pointVectors triangleStore 0) (faceVectors triangleStore 0) \<and>
   pointVectors crowdedStore 5 = pointVectors triangleStore 0 \<and>
   faceVectors crowdedStore 3 = faceVectors triangleStore 0 \<and>
   (\<exists>V' M' N'.
      loopSubdivision exactArith (sampleGeometry exactArith)
          (pointVectors triangleStore 0) (faceVectors triangleStore 0) [] [] []
        = Inr (V', M', N') \<and>
      loopSubdivisionAt exactArith (sampleGeometry exactArith) 0 0 1 1 2 triangleStore
        = Inr (triangleStore\<lparr>pointVectors := (pointVectors triangleStore)(1 := V', 2 := N'),
                faceVectors := (faceVectors triangleStore)(1 := M')\<rparr>) \<and>
      loopSubdivisionAt exactArith (sampleGeometry exactArith) 5 3 0 0 1 crowdedStore
        = Inr (crowdedStore\<lparr>pointVectors := (pointVectors crowdedStore)(0 := V', 1 := N'),
                faceVectors := (faceVectors crowdedStore)(0 := M')\<rparr>))"
proof -
  have v: "validMesh (pointVectors triangleStore 0) (faceVectors triangleStore 0)"
    by (simp add: triangleStore_inputs validMesh_triangle)
  have p: "pointVectors crowdedStore 5 = pointVectors triangleStore 0"
    and f: "faceVectors crowdedStore 3 = faceVectors triangleStore 0"
    by (simp_all add: triangleStore_inputs crowdedStore_inputs)
  have ne: "(0 :: nat) \<noteq> 1" "(0 :: nat) \<noteq> 2" "(1 :: nat) \<noteq> 2"
    "(5 :: nat) \<noteq> 0" "(5 :: nat) \<noteq> 1" "(3 :: nat) \<noteq> 0"
    by simp_all
  show ?thesis
    using pass_reads_inputs_writes_outputs [OF v ne(1) ne(2) ne(3) ne(1) ne(4) ne(5) ne(1) ne(6) p f,
        of exactArith "sampleGeometry exactArith"] v p f
    by (intro conjI)
qed

text \<open>
  C9. On a well-formed mesh the output vertex list has the length of the list the first
  loop built, and agrees with it at every index from the input vertex count on. The
  repositioning loop, on any accumulators and any list, changes neither the length nor an
  entry at such an index; and a call of \<^verbatim>\<open>getNewVertex\<close> either leaves the vertex list as
  it is or appends one entry at the returned index, so that a midpoint keeps the position
  it got when it was created. This holds in every arithmetic.
\<close>

theorem repositioning_keeps_midpoints:
  assumes "validMesh V F"
  shows "\<exists>V1 M1 E V' M' N'.
           subdivideFaces A V F = Inr (V1, M1, E) \<and>
           loopSubdivision A G V F dv dm dn = Inr (V', M', N') \<and>
           length V' = length V1 \<and>
           (\<forall>i. length V \<le> i \<and> i < length V1 \<longrightarrow> V' ! i = V1 ! i) \<and>
           (\<forall>occ tmp d d'. reposition A V occ tmp d = Inr d' \<longrightarrow>
              length d' = length d \<and> (\<forall>i \<ge> length V. d' ! i = d ! i)) \<and>
           (\<forall>e Vl L j Vl' L'. getNewVertex A e Vl F L = Inr (j, Vl', L') \<longrightarrow>
              Vl' = Vl \<or> (\<exists>p. Vl' = Vl @ [p] \<and> j = length Vl))"
proof -
  obtain V1 E acc where s: "subdivideFaces A V F = Inr (V1, concat (map (subdivided E) F), E)"
    and reg: "registry A V F V1 E" and d: "dom E = meshEdges F"
    and out: "loopSubdivision A G V F dv dm dn
       = Inr (map (newPosition A V F) [0 ..< length V] @ drop (length V) V1,
              concat (map (subdivided E) F), map (normalize_vec3d G) acc)"
    and an: "accumulateNormals A G
       (map (newPosition A V F) [0 ..< length V] @ drop (length V) V1)
       (concat (map (subdivided E) F)) = Inr acc"
    and ln: "length acc = length V1"
    by (rule pass_result [OF assms])
  let ?V' = "map (newPosition A V F) [0 ..< length V] @ drop (length V) V1"
  have len: "length V \<le> length V1"
    using reg by (simp add: registry_def)
  have a: "length ?V' = length V1"
    by (rule kept_length [OF len])
  have b: "\<forall>i. length V \<le> i \<and> i < length V1 \<longrightarrow> ?V' ! i = V1 ! i"
    using kept_tail by blast
  have c: "\<forall>occ tmp d d'. reposition A V occ tmp d = Inr d' \<longrightarrow>
              length d' = length d \<and> (\<forall>i \<ge> length V. d' ! i = d ! i)"
    using reposition_keeps by blast
  have e: "\<forall>e Vl L j Vl' L'. getNewVertex A e Vl F L = Inr (j, Vl', L') \<longrightarrow>
              Vl' = Vl \<or> (\<exists>p. Vl' = Vl @ [p] \<and> j = length Vl)"
    using getNewVertex_appends by blast
  show ?thesis
    using s out a b c e by (intro exI conjI)
qed

theorem repositioning_keeps_midpoints_witness:
  "validMesh triangleVertices triangleMesh \<and>
   (\<exists>V1 M1 E V' M' N'.
      subdivideFaces exactArith triangleVertices triangleMesh = Inr (V1, M1, E) \<and>
      loopSubdivision exactArith (sampleGeometry exactArith) triangleVertices triangleMesh [] [] []
        = Inr (V', M', N') \<and>
      length V' = length V1 \<and>
      (\<forall>i. length triangleVertices \<le> i \<and> i < length V1 \<longrightarrow> V' ! i = V1 ! i) \<and>
      (\<forall>occ tmp d d'. reposition exactArith triangleVertices occ tmp d = Inr d' \<longrightarrow>
         length d' = length d \<and> (\<forall>i \<ge> length triangleVertices. d' ! i = d ! i)) \<and>
      (\<forall>e Vl L j Vl' L'. getNewVertex exactArith e Vl triangleMesh L = Inr (j, Vl', L') \<longrightarrow>
         Vl' = Vl \<or> (\<exists>p. Vl' = Vl @ [p] \<and> j = length Vl)))"
  by (rule conjI [OF validMesh_triangle repositioning_keeps_midpoints [OF validMesh_triangle]])

text \<open>
  C10. On a well-formed mesh the input vertices are still the first entries of the vertex
  list when the first loop ends, every registered midpoint has, in that list and in the
  output, the position that the formulas of lines 225 to 248 give when they read the
  input vertex list, and for every edge of a face these formulas give the same result on
  the input list and on any list that extends it. An edge is registered by the face that
  names it first and may be looked up in the other orientation; the sum of the two
  endpoints in lines 237 and 246 then has its operands exchanged, so the addition of the
  arithmetic is taken to be commutative, as it is in IEEE 754.
\<close>

theorem midpoints_from_input_positions:
  assumes "validMesh V F" "commutativeAdd A"
  shows "\<exists>V1 M1 E V' M' N'.
           subdivideFaces A V F = Inr (V1, M1, E) \<and> take (length V) V1 = V \<and>
           loopSubdivision A G V F dv dm dn = Inr (V', M', N') \<and>
           (\<forall>e i. getIndex E e = Inr i \<longrightarrow>
              newVertexPosition A e V F = Inr (V1 ! i) \<and> V' ! i = V1 ! i) \<and>
           (\<forall>f \<in> set F. \<forall>e \<in> set (faceEdges f). \<forall>ms.
              newVertexPosition A e (V @ ms) F = newVertexPosition A e V F)"
proof -
  from assms(1) have valid: "validIndices V F"
    by (simp add: validMesh_def)
  obtain V1 E acc where s: "subdivideFaces A V F = Inr (V1, concat (map (subdivided E) F), E)"
    and reg: "registry A V F V1 E" and d: "dom E = meshEdges F"
    and out: "loopSubdivision A G V F dv dm dn
       = Inr (map (newPosition A V F) [0 ..< length V] @ drop (length V) V1,
              concat (map (subdivided E) F), map (normalize_vec3d G) acc)"
    and an: "accumulateNormals A G
       (map (newPosition A V F) [0 ..< length V] @ drop (length V) V1)
       (concat (map (subdivided E) F)) = Inr acc"
    and ln: "length acc = length V1"
    by (rule pass_result [OF assms(1)])
  let ?V' = "map (newPosition A V F) [0 ..< length V] @ drop (length V) V1"
  have a: "take (length V) V1 = V"
    using reg by (simp add: registry_def)
  have b: "\<forall>e i. getIndex E e = Inr i \<longrightarrow>
              newVertexPosition A e V F = Inr (V1 ! i) \<and> ?V' ! i = V1 ! i"
    using registered_position [OF assms(2) reg] kept_tail by blast
  have c: "newVertexPosition A e (V @ ms) F = newVertexPosition A e V F"
    if "f \<in> set F" "e \<in> set (faceEdges f)" for f e ms
  proof -
    have "fst e < length V \<and> snd e < length V"
      using validIndices_edge [OF valid that] .
    then show ?thesis
      using newVertexPosition_prefix [of V "V @ ms" e F A] valid by simp
  qed
  have "\<forall>f \<in> set F. \<forall>e \<in> set (faceEdges f). \<forall>ms.
              newVertexPosition A e (V @ ms) F = newVertexPosition A e V F"
    using c by blast
  then show ?thesis
    using s a out b by (intro exI conjI)
qed

theorem midpoints_from_input_positions_witness:
  "validMesh roundingQuad quadMesh \<and> commutativeAdd binary32 \<and>
   (\<exists>V1 M1 E V' M' N'.
      subdivideFaces binary32 roundingQuad quadMesh = Inr (V1, M1, E) \<and>
      take (length roundingQuad) V1 = roundingQuad \<and>
      loopSubdivision binary32 (sampleGeometry binary32) roundingQuad quadMesh [] [] []
        = Inr (V', M', N') \<and>
      (\<forall>e i. getIndex E e = Inr i \<longrightarrow>
         newVertexPosition binary32 e roundingQuad quadMesh = Inr (V1 ! i) \<and> V' ! i = V1 ! i) \<and>
      (\<forall>f \<in> set quadMesh. \<forall>e \<in> set (faceEdges f). \<forall>ms.
         newVertexPosition binary32 e (roundingQuad @ ms) quadMesh
           = newVertexPosition binary32 e roundingQuad quadMesh))"
  by (intro conjI validMesh_roundingQuad commutativeAdd_binary32
      midpoints_from_input_positions [OF validMesh_roundingQuad commutativeAdd_binary32])

end
